theory Spec2Isabelle
  imports Complex_Main
begin

section \<open>JavaScript values shared by the analysers\<close>

text \<open>
  The analysers of \<^verbatim>\<open>src/assets/js\<close> are plain JavaScript functions over strings, numbers
  and a parsed DOM tree.  Strings are modelled as lists of 8-bit code units (Latin-1), with
  the whitespace and the letter case of that range; the texts the statements speak about
  are ASCII.  Numbers that the source only ever uses as integers (lengths, counts, scores)
  are \<open>nat\<close> or \<open>int\<close>.  Quotients, which JavaScript computes in double precision, are exact
  rationals here.  The two can part where the exact value lies on a threshold or on a
  rounding tie: a coefficient of variation of exactly 0.4 can be computed as
  0.39999999999999997, which is below the threshold, and \<^verbatim>\<open>(23 / 40) * 100\<close> is computed
  as 57.49999999999999, which rounds to 57 and not to 58.  The final score of a battery,
  \<^verbatim>\<open>Math.round((t / 100) * 100)\<close> for an integer \<open>t\<close> from 0 to 100, is \<open>t\<close> in both.  The
  only exception the analysers can raise is a \<^verbatim>\<open>TypeError\<close> (reading a property of
  \<^verbatim>\<open>undefined\<close>); a function that can raise returns \<open>js_error + 'a\<close>.
\<close>

datatype js_error = TypeError

subsection \<open>Characters and strings\<close>

definition is_space :: "char \<Rightarrow> bool" where
  \<comment> \<open>the regular expression class \<^verbatim>\<open>\s\<close> and the characters \<^verbatim>\<open>trim()\<close> removes\<close>
  "is_space c = (let n = (of_char c :: nat) in (9 \<le> n \<and> n \<le> 13) \<or> n = 32 \<or> n = 160)"

definition is_digit :: "char \<Rightarrow> bool" where
  "is_digit c = (let n = (of_char c :: nat) in 48 \<le> n \<and> n \<le> 57)"

definition is_upper :: "char \<Rightarrow> bool" where
  "is_upper c = (let n = (of_char c :: nat) in 65 \<le> n \<and> n \<le> 90)"

definition is_lower :: "char \<Rightarrow> bool" where
  "is_lower c = (let n = (of_char c :: nat) in 97 \<le> n \<and> n \<le> 122)"

definition is_alpha :: "char \<Rightarrow> bool" where
  "is_alpha c = (is_upper c \<or> is_lower c)"

definition is_word :: "char \<Rightarrow> bool" where
  \<comment> \<open>the regular expression class \<^verbatim>\<open>\w\<close>\<close>
  "is_word c = (is_alpha c \<or> is_digit c \<or> c = CHR ''_'')"

definition ascii_lower :: "char \<Rightarrow> char" where
  \<comment> \<open>lower case for the letters \<^verbatim>\<open>A\<close> to \<^verbatim>\<open>Z\<close> only, as the URL parser and the selector engine use it\<close>
  "ascii_lower c = (if is_upper c then char_of ((of_char c :: nat) + 32) else c)"

definition to_lower :: "char \<Rightarrow> char" where
  \<comment> \<open>\<^verbatim>\<open>String.prototype.toLowerCase\<close> on one code unit: the letters \<^verbatim>\<open>A\<close> to \<^verbatim>\<open>Z\<close> and the
      upper-case letters of Latin-1, U+00C0 to U+00DE without the multiplication sign U+00D7\<close>
  "to_lower c =
     (let n = (of_char c :: nat)
      in if is_upper c \<or> (192 \<le> n \<and> n \<le> 222 \<and> n \<noteq> 215) then char_of (n + 32) else c)"

definition toLowerCase :: "string \<Rightarrow> string" where
  "toLowerCase s = map to_lower s"

definition trim :: "string \<Rightarrow> string" where
  "trim s = rev (dropWhile is_space (rev (dropWhile is_space s)))"

definition startsWith :: "string \<Rightarrow> string \<Rightarrow> bool" where
  "startsWith s p = (take (length p) s = p)"

fun str_includes :: "string \<Rightarrow> string \<Rightarrow> bool" where
  \<comment> \<open>\<^verbatim>\<open>s.includes(p)\<close>\<close>
  "str_includes [] p = (p = [])"
| "str_includes (c # cs) p = (startsWith (c # cs) p \<or> str_includes cs p)"

fun show_nat :: "nat \<Rightarrow> string" where
  \<comment> \<open>the decimal numeral a template literal prints for a non-negative integer\<close>
  "show_nat n = (if n < 10 then [char_of (48 + n)] else show_nat (n div 10) @ [char_of (48 + n mod 10)])"

fun join :: "string \<Rightarrow> string list \<Rightarrow> string" where
  \<comment> \<open>\<^verbatim>\<open>xs.join(sep)\<close>\<close>
  "join sep [] = []"
| "join sep [x] = x"
| "join sep (x # y # ys) = x @ sep @ join sep (y # ys)"

subsection \<open>Numbers\<close>

definition Math_round :: "rat \<Rightarrow> int" where
  \<comment> \<open>\<^verbatim>\<open>Math.round\<close>: the nearest integer, a tie going up\<close>
  "Math_round x = \<lfloor>x + 1 / 2\<rfloor>"

subsection \<open>Check results\<close>

text \<open>
  Every check returns an object literal \<^verbatim>\<open>{name, status, score, message, suggestion}\<close>.
  The model keeps the first four fields; \<^verbatim>\<open>suggestion\<close> is advisory text for the page and
  takes no part in scoring.
\<close>

datatype check_status = Pass | Warning | Fail

record check_result =
  name :: string
  status :: check_status
  score :: int
  message :: string

definition totalScore :: "check_result list \<Rightarrow> int" where
  \<comment> \<open>\<^verbatim>\<open>checks.forEach(check => totalScore += check.score)\<close>, starting from 0\<close>
  "totalScore cs = foldl (\<lambda>acc c. acc + score c) 0 cs"

definition finalScore :: "int \<Rightarrow> int \<Rightarrow> int" where
  \<comment> \<open>\<^verbatim>\<open>Math.round((totalScore / maxScore) * 100)\<close>\<close>
  "finalScore tot maxScore = Math_round ((of_int tot / of_int maxScore) * 100)"

text \<open>
  The three display tiers every \<^verbatim>\<open>displayResults\<close> selects from the score
  (the classes \<^verbatim>\<open>score-green\<close>, \<^verbatim>\<open>score-yellow\<close>, \<^verbatim>\<open>score-red\<close>).
\<close>

datatype tier = Green | Yellow | Red

section \<open>The parsed document\<close>

text \<open>
  \<^verbatim>\<open>DOMParser.parseFromString(html, 'text/html')\<close> always yields a document with an
  \<^verbatim>\<open>html\<close> element holding a head and a body, so \<^verbatim>\<open>doc.body\<close> is never null.  Element and
  attribute names are the lower-case names the HTML parser produces.  The tree holds HTML
  elements only: the elements of inline SVG or MathML content, where \<^verbatim>\<open>a.href\<close> is not a
  string, are outside the model, and so is the matching of class names without regard to
  case in a document without a doctype.
\<close>

datatype node =
    Element (tagName: string) (attributes: "(string \<times> string) list") (childNodes: "node list")
  | TextNode string

record document =
  html_attributes :: "(string \<times> string) list"
  head :: node
  body :: node

definition documentElement :: "document \<Rightarrow> node" where
  "documentElement doc = Element ''html'' (html_attributes doc) [head doc, body doc]"

fun getAttribute :: "node \<Rightarrow> string \<Rightarrow> string option" where
  \<comment> \<open>\<^verbatim>\<open>el.getAttribute(n)\<close>; \<open>None\<close> is \<^verbatim>\<open>null\<close>\<close>
  "getAttribute (Element t as cs) n = map_of as n"
| "getAttribute (TextNode s) n = None"

fun textContent :: "node \<Rightarrow> string" where
  "textContent (TextNode s) = s"
| "textContent (Element t as cs) = concat (map textContent cs)"

subsection \<open>Selectors\<close>

text \<open>
  The selectors the checks pass to \<^verbatim>\<open>querySelector\<close> and \<^verbatim>\<open>querySelectorAll\<close> are
  comma-separated lists of compound selectors, some with one descendant combinator.  They
  are written as values of the following types; each constant below quotes its source text.
\<close>

datatype simple_selector =
    Type string                 \<comment> \<open>\<^verbatim>\<open>tag\<close>\<close>
  | Attr string                 \<comment> \<open>\<^verbatim>\<open>[a]\<close>\<close>
  | AttrEquals string string    \<comment> \<open>\<^verbatim>\<open>[a="v"]\<close>\<close>
  | AttrStarts string string    \<comment> \<open>\<^verbatim>\<open>[a^="v"]\<close>\<close>
  | Class string                \<comment> \<open>\<^verbatim>\<open>.c\<close>\<close>

datatype complex_selector =
    Compound "simple_selector list"
  | Descendant "simple_selector list" "simple_selector list"   \<comment> \<open>\<^verbatim>\<open>ancestor target\<close>\<close>

type_synonym selector = "complex_selector list"

definition is_ascii_whitespace :: "char \<Rightarrow> bool" where
  \<comment> \<open>tab, line feed, form feed, carriage return and space: what separates the tokens of an
      attribute value\<close>
  "is_ascii_whitespace c = (let n = (of_char c :: nat) in n = 9 \<or> n = 10 \<or> n = 12 \<or> n = 13 \<or> n = 32)"

fun class_tokens :: "string \<Rightarrow> string list" where
  \<comment> \<open>the whitespace-separated tokens of a \<^verbatim>\<open>class\<close> attribute\<close>
  "class_tokens [] = []"
| "class_tokens (c # cs) =
     (if is_ascii_whitespace c then class_tokens cs
      else (case class_tokens cs of
              [] \<Rightarrow> [[c]]
            | t # ts \<Rightarrow> (if cs \<noteq> [] \<and> \<not> is_ascii_whitespace (hd cs) then (c # t) # ts
                         else [c] # t # ts)))"

definition attribute_value_equals :: "string \<Rightarrow> string \<Rightarrow> string \<Rightarrow> bool" where
  \<comment> \<open>\<^verbatim>\<open>[a="v"]\<close> against the value \<open>x\<close> of the attribute.  In an HTML document the values of
      \<^verbatim>\<open>rel\<close> are compared without regard to the case of ASCII letters; the other attributes
      of the selectors of the source (\<^verbatim>\<open>name\<close>, \<^verbatim>\<open>role\<close>) are compared as written.\<close>
  "attribute_value_equals a v x = (if a = ''rel'' then map ascii_lower x = map ascii_lower v else x = v)"

fun matches_simple :: "node \<Rightarrow> simple_selector \<Rightarrow> bool" where
  "matches_simple (TextNode s) sel = False"
| "matches_simple (Element t as cs) (Type n) = (t = n)"
| "matches_simple (Element t as cs) (Attr a) = (map_of as a \<noteq> None)"
| "matches_simple (Element t as cs) (AttrEquals a v) =
     (case map_of as a of None \<Rightarrow> False | Some x \<Rightarrow> attribute_value_equals a v x)"
| "matches_simple (Element t as cs) (AttrStarts a v) =
     (case map_of as a of None \<Rightarrow> False | Some x \<Rightarrow> v \<noteq> [] \<and> startsWith x v)"
| "matches_simple (Element t as cs) (Class c) =
     (case map_of as ''class'' of None \<Rightarrow> False | Some x \<Rightarrow> c \<in> set (class_tokens x))"

fun is_element :: "node \<Rightarrow> bool" where
  "is_element (Element t as cs) = True"
| "is_element (TextNode s) = False"

definition matches_compound :: "simple_selector list \<Rightarrow> node \<Rightarrow> bool" where
  "matches_compound sels e = (is_element e \<and> list_all (matches_simple e) sels)"

fun matches_complex :: "node list \<Rightarrow> node \<Rightarrow> complex_selector \<Rightarrow> bool" where
  \<comment> \<open>the first argument lists the ancestors of the element\<close>
  "matches_complex anc e (Compound c) = matches_compound c e"
| "matches_complex anc e (Descendant a c) = (matches_compound c e \<and> list_ex (matches_compound a) anc)"

definition matches :: "selector \<Rightarrow> node list \<Rightarrow> node \<Rightarrow> bool" where
  "matches sel anc e = list_ex (matches_complex anc e) sel"

fun elements :: "node list \<Rightarrow> node \<Rightarrow> (node list \<times> node) list" where
  \<comment> \<open>the elements of a subtree in document order, each with its ancestors\<close>
  "elements anc (TextNode s) = []"
| "elements anc (Element t as cs) =
     (anc, Element t as cs) # concat (map (elements (Element t as cs # anc)) cs)"

definition querySelectorAll :: "document \<Rightarrow> selector \<Rightarrow> node list" where
  "querySelectorAll doc sel =
     map snd (filter (\<lambda>(anc, e). matches sel anc e) (elements [] (documentElement doc)))"

definition querySelector :: "document \<Rightarrow> selector \<Rightarrow> node option" where
  \<comment> \<open>the first match in document order; \<open>None\<close> is \<^verbatim>\<open>null\<close>\<close>
  "querySelector doc sel = (case querySelectorAll doc sel of [] \<Rightarrow> None | e # es \<Rightarrow> Some e)"

definition element_querySelectorAll :: "node \<Rightarrow> selector \<Rightarrow> node list" where
  \<comment> \<open>\<^verbatim>\<open>el.querySelectorAll(sel)\<close>: the matching proper descendants of \<open>el\<close>.  The checks
      call it only with selectors that have no combinator.\<close>
  "element_querySelectorAll el sel =
     map snd (filter (\<lambda>(anc, e). matches sel anc e) (concat (map (elements [el]) (childNodes el))))"

fun remove_all :: "selector \<Rightarrow> node list \<Rightarrow> node \<Rightarrow> node" where
  \<comment> \<open>\<^verbatim>\<open>clone.querySelectorAll(sel).forEach(el => el.remove())\<close> on a clone of the node\<close>
  "remove_all sel anc (TextNode s) = TextNode s"
| "remove_all sel anc (Element t as cs) =
     Element t as
       (map (remove_all sel (Element t as cs # anc))
          (filter (\<lambda>c. \<not> matches sel (Element t as cs # anc) c) cs))"

subsection \<open>URLs\<close>

text \<open>
  \<^verbatim>\<open>new URL(url).hostname\<close> is the browser's URL parser.  The model covers the URLs the
  submit handlers let through (\<^verbatim>\<open>isValidUrl\<close>: an \<^verbatim>\<open>http:\<close> or \<^verbatim>\<open>https:\<close> URL) in their
  usual form \<^verbatim>\<open>scheme://[user@]host[:port][/path][?query][#fragment]\<close>: the scheme must be
  there, the slashes after it are skipped, the authority ends at the first of
  \<^verbatim>\<open>/ \ ? #\<close>, user information and port are dropped and the host is lower-cased; no scheme
  or an empty host is the parser's failure (\<open>None\<close>, the \<^verbatim>\<open>TypeError\<close> the callers catch).
  Percent-decoding, IDNA, IPv6 literals and numeric IPv4 forms are outside the model.
\<close>

definition is_scheme_char :: "char \<Rightarrow> bool" where
  "is_scheme_char c = (is_alpha c \<or> is_digit c \<or> c \<in> set ''+-.'')"

fun after_last_at :: "string \<Rightarrow> string" where
  \<comment> \<open>the part of an authority after its last \<^verbatim>\<open>@\<close>\<close>
  "after_last_at [] = []"
| "after_last_at (c # cs) =
     (if CHR ''@'' \<in> set (c # cs) then after_last_at cs else c # cs)"

definition URL_hostname :: "string \<Rightarrow> string option" where
  "URL_hostname input =
     (let s = rev (dropWhile (\<lambda>c. (of_char c :: nat) \<le> 32) (rev (dropWhile (\<lambda>c. (of_char c :: nat) \<le> 32) input)));
          scheme = takeWhile (\<lambda>c. c \<noteq> CHR '':'') s
      in if scheme = [] \<or> length scheme = length s \<or> \<not> is_alpha (hd scheme) \<or> \<not> list_all is_scheme_char scheme
         then None
         else (let rest = dropWhile (\<lambda>c. c = CHR ''/'' \<or> c = CHR 0x5C) (drop (length scheme + 1) s);
                   authority = takeWhile (\<lambda>c. c \<noteq> CHR ''/'' \<and> c \<noteq> CHR 0x5C \<and> c \<noteq> CHR ''?'' \<and> c \<noteq> CHR ''#'') rest;
                   host = takeWhile (\<lambda>c. c \<noteq> CHR '':'') (after_last_at authority)
               in if host = [] then None else Some (map ascii_lower host)))"

definition hostname_or_empty :: "string \<Rightarrow> string" where
  \<comment> \<open>\<^verbatim>\<open>let h = ''; try { h = new URL(url).hostname; } catch (e) {}\<close>\<close>
  "hostname_or_empty url = (case URL_hostname url of Some h \<Rightarrow> h | None \<Rightarrow> [])"

section \<open>The SEO battery (\<^verbatim>\<open>seo-checker.js\<close>)\<close>

definition checkTitle :: "document \<Rightarrow> check_result" where
  "checkTitle doc =
     (let title = querySelector doc [Compound [Type ''title'']];
          titleText = (case title of Some t \<Rightarrow> trim (textContent t) | None \<Rightarrow> []);
          len = length titleText
      in if title = None \<or> len = 0 then
           \<lparr>name = ''Title Tag'', status = Fail, score = 0,
            message = ''Missing title tag - critical SEO element not found.''\<rparr>
         else if len < 30 then
           \<lparr>name = ''Title Tag'', status = Warning, score = 8,
            message = ''Title too short ('' @ show_nat len @ '' chars). May not fully describe page content.''\<rparr>
         else if len > 70 then
           \<lparr>name = ''Title Tag'', status = Warning, score = 10,
            message = ''Title too long ('' @ show_nat len @ '' chars). Will be truncated in search results.''\<rparr>
         else
           \<lparr>name = ''Title Tag'', status = Pass, score = 15,
            message = ''Well-optimized title ('' @ show_nat len @ '' characters).''\<rparr>)"

text \<open>
  In \<^verbatim>\<open>checkMetaDescription\<close> the content is
  \<^verbatim>\<open>meta ? meta.getAttribute('content')?.trim() : ''\<close>: with the element present and the
  attribute absent, \<^verbatim>\<open>getAttribute\<close> is \<^verbatim>\<open>null\<close>, the optional chain yields
  \<^verbatim>\<open>undefined\<close>, and the next statement \<^verbatim>\<open>content.length\<close> raises a \<^verbatim>\<open>TypeError\<close>.
\<close>

definition checkMetaDescription :: "document \<Rightarrow> js_error + check_result" where
  "checkMetaDescription doc =
     (let meta = querySelector doc [Compound [Type ''meta'', AttrEquals ''name'' ''description'']];
          content = (case meta of Some m \<Rightarrow> map_option trim (getAttribute m ''content'') | None \<Rightarrow> Some [])
      in case content of
           None \<Rightarrow> Inl TypeError
         | Some c \<Rightarrow>
            (let len = length c
             in Inr (if meta = None \<or> len = 0 then
                       \<lparr>name = ''Meta Description'', status = Fail, score = 0,
                        message = ''Missing meta description - important for click-through rates.''\<rparr>
                     else if len < 100 then
                       \<lparr>name = ''Meta Description'', status = Warning, score = 6,
                        message = ''Meta description short ('' @ show_nat len @ '' chars). Not using full SERP space.''\<rparr>
                     else if len > 170 then
                       \<lparr>name = ''Meta Description'', status = Warning, score = 9,
                        message = ''Meta description long ('' @ show_nat len @ '' chars). Will be truncated.''\<rparr>
                     else
                       \<lparr>name = ''Meta Description'', status = Pass, score = 12,
                        message = ''Well-optimized meta description ('' @ show_nat len @ '' characters).''\<rparr>)))"

definition checkH1Tags :: "document \<Rightarrow> check_result" where
  "checkH1Tags doc =
     (let h1Tags = querySelectorAll doc [Compound [Type ''h1'']];
          count = length h1Tags
      in if count = 0 then
           \<lparr>name = ''H1 Heading'', status = Fail, score = 0,
            message = ''No H1 heading found - main topic unclear to search engines.''\<rparr>
         else if count > 1 then
           \<lparr>name = ''H1 Heading'', status = Warning, score = 8,
            message = ''Multiple H1 tags found ('' @ show_nat count @ ''). Dilutes topic focus.''\<rparr>
         else if length (trim (textContent (hd h1Tags))) < 10 then
           \<lparr>name = ''H1 Heading'', status = Warning, score = 8,
            message = ''H1 heading appears too short or generic.''\<rparr>
         else
           \<lparr>name = ''H1 Heading'', status = Pass, score = 12,
            message = ''Single, well-structured H1 heading present.''\<rparr>)"

definition checkHeadingHierarchy :: "document \<Rightarrow> check_result" where
  "checkHeadingHierarchy doc =
     (let h1 = length (querySelectorAll doc [Compound [Type ''h1'']]);
          h2 = length (querySelectorAll doc [Compound [Type ''h2'']]);
          h3 = length (querySelectorAll doc [Compound [Type ''h3'']])
      in if h1 = 0 then
           \<lparr>name = ''Heading Structure'', status = Fail, score = 0,
            message = ''No heading hierarchy established.''\<rparr>
         else if h2 = 0 then
           \<lparr>name = ''Heading Structure'', status = Warning, score = 5,
            message = ''No H2 headings found. Content may lack structure.''\<rparr>
         else if h2 \<ge> 2 \<and> (h3 \<ge> 1 \<or> h2 \<ge> 4) then
           \<lparr>name = ''Heading Structure'', status = Pass, score = 10,
            message = ''Good heading hierarchy ('' @ show_nat h1 @ '' H1, '' @ show_nat h2 @ '' H2, '' @ show_nat h3 @ '' H3).''\<rparr>
         else
           \<lparr>name = ''Heading Structure'', status = Warning, score = 7,
            message = ''Basic heading structure ('' @ show_nat h1 @ '' H1, '' @ show_nat h2 @ '' H2).''\<rparr>)"

definition has_alt :: "node \<Rightarrow> bool" where
  \<comment> \<open>\<^verbatim>\<open>alt && alt.trim().length > 0\<close> for \<^verbatim>\<open>alt = img.getAttribute('alt')\<close>\<close>
  "has_alt img = (case getAttribute img ''alt'' of None \<Rightarrow> False | Some alt \<Rightarrow> alt \<noteq> [] \<and> length (trim alt) > 0)"

definition percentage_of :: "nat \<Rightarrow> nat \<Rightarrow> int" where
  \<comment> \<open>\<^verbatim>\<open>Math.round((withAlt / total) * 100)\<close>, in exact arithmetic\<close>
  "percentage_of withAlt tot = Math_round ((of_nat withAlt / of_nat tot) * 100)"

definition checkImageAlts :: "document \<Rightarrow> check_result" where
  "checkImageAlts doc =
     (let images = querySelectorAll doc [Compound [Type ''img'']];
          tot = length images
      in if tot = 0 then
           \<lparr>name = ''Image Alt Attributes'', status = Warning, score = 5,
            message = ''No images found. Consider adding relevant visuals.''\<rparr>
         else
           (let withAlt = length (filter has_alt images);
                percentage = percentage_of withAlt tot
            in if percentage < 50 then
                 \<lparr>name = ''Image Alt Attributes'', status = Fail, score = 2,
                  message = ''Only '' @ show_nat (nat percentage) @ ''% of images have alt text ('' @ show_nat withAlt @ ''/'' @ show_nat tot @ '').''\<rparr>
               else if percentage < 90 then
                 \<lparr>name = ''Image Alt Attributes'', status = Warning, score = 6,
                  message = show_nat (nat percentage) @ ''% of images have alt text ('' @ show_nat withAlt @ ''/'' @ show_nat tot @ '').''\<rparr>
               else
                 \<lparr>name = ''Image Alt Attributes'', status = Pass, score = 10,
                  message = ''Excellent! '' @ show_nat (nat percentage) @ ''% of images have alt text.''\<rparr>))"

definition is_internal :: "string \<Rightarrow> node \<Rightarrow> bool" where
  \<comment> \<open>the condition under which \<^verbatim>\<open>checkInternalLinks\<close> counts a link\<close>
  "is_internal baseDomain link =
     (case getAttribute link ''href'' of
        None \<Rightarrow> False
      | Some href \<Rightarrow>
          href \<noteq> [] \<and>
          (startsWith href ''/'' \<or> startsWith href ''#'' \<or> startsWith href ''./'' \<or>
           \<not> startsWith href ''http'' \<or> (baseDomain \<noteq> [] \<and> str_includes href baseDomain)))"

definition checkInternalLinks :: "document \<Rightarrow> string \<Rightarrow> check_result" where
  "checkInternalLinks doc url =
     (let allLinks = querySelectorAll doc [Compound [Type ''a'', Attr ''href'']];
          baseDomain = hostname_or_empty url;
          internal = length (filter (is_internal baseDomain) allLinks)
      in if internal < 3 then
           \<lparr>name = ''Internal Links'', status = Fail, score = 2,
            message = ''Very few internal links ('' @ show_nat internal @ ''). Poor site structure signal.''\<rparr>
         else if internal < 10 then
           \<lparr>name = ''Internal Links'', status = Warning, score = 6,
            message = ''Moderate internal linking ('' @ show_nat internal @ '' links).''\<rparr>
         else
           \<lparr>name = ''Internal Links'', status = Pass, score = 10,
            message = ''Good internal linking structure ('' @ show_nat internal @ '' links).''\<rparr>)"

definition is_external :: "string \<Rightarrow> node \<Rightarrow> bool" where
  "is_external baseDomain link =
     (case getAttribute link ''href'' of
        None \<Rightarrow> False
      | Some href \<Rightarrow>
          href \<noteq> [] \<and> startsWith href ''http'' \<and> baseDomain \<noteq> [] \<and> \<not> str_includes href baseDomain)"

definition checkExternalLinks :: "document \<Rightarrow> string \<Rightarrow> check_result" where
  "checkExternalLinks doc url =
     (let allLinks = querySelectorAll doc [Compound [Type ''a'', Attr ''href'']];
          baseDomain = hostname_or_empty url;
          external = length (filter (is_external baseDomain) allLinks)
      in if external = 0 then
           \<lparr>name = ''External Links'', status = Warning, score = 4,
            message = ''No external links found.''\<rparr>
         else if external > 20 then
           \<lparr>name = ''External Links'', status = Warning, score = 5,
            message = ''Many external links ('' @ show_nat external @ ''). May dilute page authority.''\<rparr>
         else
           \<lparr>name = ''External Links'', status = Pass, score = 8,
            message = ''Balanced external linking ('' @ show_nat external @ '' links).''\<rparr>)"

definition checkHTTPS :: "string \<Rightarrow> check_result" where
  "checkHTTPS url =
     (if url = [] then
        \<lparr>name = ''HTTPS Security'', status = Warning, score = 5,
         message = ''Could not verify HTTPS status.''\<rparr>
      else if startsWith (toLowerCase url) ''https://'' then
        \<lparr>name = ''HTTPS Security'', status = Pass, score = 10,
         message = ''Site uses secure HTTPS connection.''\<rparr>
      else
        \<lparr>name = ''HTTPS Security'', status = Fail, score = 0,
         message = ''Site not using HTTPS - major security and ranking issue.''\<rparr>)"

definition checkViewport :: "document \<Rightarrow> check_result" where
  "checkViewport doc =
     (case querySelector doc [Compound [Type ''meta'', AttrEquals ''name'' ''viewport'']] of
        None \<Rightarrow>
          \<lparr>name = ''Mobile Viewport'', status = Fail, score = 0,
           message = ''Missing viewport meta tag - likely not mobile-friendly.''\<rparr>
      | Some viewport \<Rightarrow>
          (let content = (case getAttribute viewport ''content'' of Some c \<Rightarrow> c | None \<Rightarrow> [])
           in if str_includes content ''width=device-width'' then
                \<lparr>name = ''Mobile Viewport'', status = Pass, score = 8,
                 message = ''Mobile-responsive viewport configured.''\<rparr>
              else
                \<lparr>name = ''Mobile Viewport'', status = Warning, score = 5,
                 message = ''Viewport present but may not be optimally configured.''\<rparr>))"

definition checkCanonical :: "document \<Rightarrow> check_result" where
  "checkCanonical doc =
     (case querySelector doc [Compound [Type ''link'', AttrEquals ''rel'' ''canonical'']] of
        None \<Rightarrow>
          \<lparr>name = ''Canonical Tag'', status = Warning, score = 2,
           message = ''No canonical tag found.''\<rparr>
      | Some canonical \<Rightarrow>
          (case getAttribute canonical ''href'' of
             Some (c # cs) \<Rightarrow>
               \<lparr>name = ''Canonical Tag'', status = Pass, score = 5,
                message = ''Canonical tag properly implemented.''\<rparr>
           | _ \<Rightarrow>
               \<lparr>name = ''Canonical Tag'', status = Warning, score = 2,
                message = ''Canonical tag present but empty.''\<rparr>))"

record seo_results =
  seo_score :: int
  seo_url :: string
  seo_checks :: "check_result list"

definition analyzeSEO_maxScore :: int where
  \<comment> \<open>\<^verbatim>\<open>maxScore\<close> after its ten increments\<close>
  "analyzeSEO_maxScore = 0 + 15 + 12 + 12 + 10 + 10 + 10 + 8 + 10 + 8 + 5"

definition analyzeSEO :: "document \<Rightarrow> string \<Rightarrow> js_error + seo_results" where
  \<comment> \<open>the first argument is the document \<^verbatim>\<open>DOMParser\<close> made of the \<^verbatim>\<open>html\<close> text\<close>
  "analyzeSEO doc url =
     (case checkMetaDescription doc of
        Inl e \<Rightarrow> Inl e
      | Inr metaDescription \<Rightarrow>
          (let checks = [checkTitle doc, metaDescription, checkH1Tags doc, checkHeadingHierarchy doc,
                         checkImageAlts doc, checkInternalLinks doc url, checkExternalLinks doc url,
                         checkHTTPS url, checkViewport doc, checkCanonical doc]
           in Inr \<lparr>seo_score = finalScore (totalScore checks) analyzeSEO_maxScore,
                   seo_url = url, seo_checks = checks\<rparr>))"

definition displaySEOResults_tier :: "int \<Rightarrow> tier \<times> string" where
  \<comment> \<open>the class and the status text \<^verbatim>\<open>displaySEOResults\<close> selects from \<^verbatim>\<open>results.score\<close>\<close>
  "displaySEOResults_tier s =
     (if s \<ge> 80 then (Green, ''Excellent SEO Health'')
      else if s \<ge> 60 then (Yellow, ''Good - Needs Improvement'')
      else (Red, ''Needs Significant Work''))"

section \<open>The ad-readiness battery (\<^verbatim>\<open>adsense-checker.js\<close>)\<close>

text \<open>
  The scripts are loaded on different pages and reuse function names; a name that is already
  taken carries the suffix \<open>_ad\<close> here, \<open>_static\<close> in the static-site battery and \<open>_text\<close>
  in the text battery.
\<close>

function split_on :: "(char \<Rightarrow> bool) \<Rightarrow> string \<Rightarrow> string list" where
  \<comment> \<open>\<^verbatim>\<open>s.split(/[...]+/)\<close> for a character class: the pieces between the maximal runs of
      separator characters, empty first and last pieces included\<close>
  "split_on sep s =
     (let w = takeWhile (\<lambda>c. \<not> sep c) s; rest = dropWhile (\<lambda>c. \<not> sep c) s
      in if rest = [] then [w] else w # split_on sep (dropWhile sep rest))"
  by pat_completeness auto
termination
proof (relation "measure (\<lambda>(sep, s). length s)")
  show "wf (measure (\<lambda>(sep, s). length s))" by simp
next
  fix sep :: "char \<Rightarrow> bool" and s w rest
  assume rest: "rest = dropWhile (\<lambda>c. \<not> sep c) s" and ne: "rest \<noteq> []"
  from ne obtain c cs where c: "rest = c # cs" by (cases rest) auto
  from ne have "\<not> \<not> sep (hd rest)" unfolding rest by (rule hd_dropWhile)
  with c have "sep c" by simp
  with c have "length (dropWhile sep rest) \<le> length cs"
    by (simp add: length_dropWhile_le)
  with c have "length (dropWhile sep rest) < length rest" by simp
  also have "length rest \<le> length s"
    unfolding rest by (rule length_dropWhile_le)
  finally show "((sep, dropWhile sep rest), (sep, s)) \<in> measure (\<lambda>(sep, s). length s)"
    by simp
qed

definition words_of :: "string \<Rightarrow> string list" where
  \<comment> \<open>\<^verbatim>\<open>s.split(/\s+/).filter(w => w.length > 0)\<close>\<close>
  "words_of s = filter (\<lambda>w. length w > 0) (split_on is_space s)"

definition checkTitleTag :: "document \<Rightarrow> check_result" where
  "checkTitleTag doc =
     (let title = querySelector doc [Compound [Type ''title'']];
          titleText = (case title of Some t \<Rightarrow> trim (textContent t) | None \<Rightarrow> []);
          titleLength = length titleText
      in if title = None \<or> titleLength = 0 then
           \<lparr>name = ''Title Tag'', status = Fail, score = 0,
            message = ''No title tag found on your page.''\<rparr>
         else if titleLength < 30 then
           \<lparr>name = ''Title Tag'', status = Warning, score = 5,
            message = ''Title tag found but too short ('' @ show_nat titleLength @ '' characters).''\<rparr>
         else if titleLength > 70 then
           \<lparr>name = ''Title Tag'', status = Warning, score = 7,
            message = ''Title tag found but too long ('' @ show_nat titleLength @ '' characters).''\<rparr>
         else
           \<lparr>name = ''Title Tag'', status = Pass, score = 10,
            message = ''Title tag is well-optimized ('' @ show_nat titleLength @ '' characters).''\<rparr>)"

definition checkMetaDescription_ad :: "document \<Rightarrow> js_error + check_result" where
  \<comment> \<open>as in the SEO battery, \<^verbatim>\<open>content.length\<close> raises when the attribute is absent\<close>
  "checkMetaDescription_ad doc =
     (let metaDesc = querySelector doc [Compound [Type ''meta'', AttrEquals ''name'' ''description'']];
          content = (case metaDesc of Some m \<Rightarrow> map_option trim (getAttribute m ''content'') | None \<Rightarrow> Some [])
      in case content of
           None \<Rightarrow> Inl TypeError
         | Some c \<Rightarrow>
            (let len = length c
             in Inr (if metaDesc = None \<or> len = 0 then
                       \<lparr>name = ''Meta Description'', status = Fail, score = 0,
                        message = ''No meta description found on your page.''\<rparr>
                     else if len < 100 then
                       \<lparr>name = ''Meta Description'', status = Warning, score = 5,
                        message = ''Meta description found but too short ('' @ show_nat len @ '' characters).''\<rparr>
                     else if len > 170 then
                       \<lparr>name = ''Meta Description'', status = Warning, score = 7,
                        message = ''Meta description found but too long ('' @ show_nat len @ '' characters).''\<rparr>
                     else
                       \<lparr>name = ''Meta Description'', status = Pass, score = 10,
                        message = ''Meta description is well-optimized ('' @ show_nat len @ '' characters).''\<rparr>)))"

definition checkH1Tag :: "document \<Rightarrow> check_result" where
  "checkH1Tag doc =
     (let h1Tags = querySelectorAll doc [Compound [Type ''h1'']];
          count = length h1Tags
      in if count = 0 then
           \<lparr>name = ''H1 Heading'', status = Fail, score = 0,
            message = ''No H1 heading found on your page.''\<rparr>
         else if count > 1 then
           \<lparr>name = ''H1 Heading'', status = Warning, score = 7,
            message = ''Multiple H1 tags found ('' @ show_nat count @ ''). Best practice is to have exactly one.''\<rparr>
         else if length (trim (textContent (hd h1Tags))) < 10 then
           \<lparr>name = ''H1 Heading'', status = Warning, score = 7,
            message = ''H1 heading found but may be too short or generic.''\<rparr>
         else
           \<lparr>name = ''H1 Heading'', status = Pass, score = 10,
            message = ''H1 heading is properly implemented.''\<rparr>)"

definition checkWordCount :: "document \<Rightarrow> check_result" where
  "checkWordCount doc =
     (let clone = remove_all [Compound [Type ''script''], Compound [Type ''style''], Compound [Type ''noscript'']] [] (body doc);
          text = textContent clone;
          wordCount = length (words_of (trim text))
      in if wordCount < 300 then
           \<lparr>name = ''Content Word Count'', status = Fail, score = 0,
            message = ''Very thin content detected (~'' @ show_nat wordCount @ '' words).''\<rparr>
         else if wordCount < 500 then
           \<lparr>name = ''Content Word Count'', status = Warning, score = 7,
            message = ''Content may be thin (~'' @ show_nat wordCount @ '' words).''\<rparr>
         else if wordCount < 800 then
           \<lparr>name = ''Content Word Count'', status = Warning, score = 12,
            message = ''Moderate content length (~'' @ show_nat wordCount @ '' words).''\<rparr>
         else
           \<lparr>name = ''Content Word Count'', status = Pass, score = 15,
            message = ''Good content length (~'' @ show_nat wordCount @ '' words).''\<rparr>)"

definition checkImageAlts_ad :: "document \<Rightarrow> check_result" where
  "checkImageAlts_ad doc =
     (let images = querySelectorAll doc [Compound [Type ''img'']];
          totalImages = length images
      in if totalImages = 0 then
           \<lparr>name = ''Image Alt Attributes'', status = Warning, score = 5,
            message = ''No images found on the page.''\<rparr>
         else
           (let imagesWithAlt = length (filter has_alt images);
                percentage = percentage_of imagesWithAlt totalImages
            in if percentage < 50 then
                 \<lparr>name = ''Image Alt Attributes'', status = Fail, score = 2,
                  message = ''Only '' @ show_nat (nat percentage) @ ''% of images have alt attributes ('' @ show_nat imagesWithAlt @ ''/'' @ show_nat totalImages @ '').''\<rparr>
               else if percentage < 90 then
                 \<lparr>name = ''Image Alt Attributes'', status = Warning, score = 6,
                  message = show_nat (nat percentage) @ ''% of images have alt attributes ('' @ show_nat imagesWithAlt @ ''/'' @ show_nat totalImages @ '').''\<rparr>
               else
                 \<lparr>name = ''Image Alt Attributes'', status = Pass, score = 10,
                  message = ''All or most images have alt attributes ('' @ show_nat imagesWithAlt @ ''/'' @ show_nat totalImages @ '').''\<rparr>))"

definition checkHTTPS_ad :: "string \<Rightarrow> check_result" where
  "checkHTTPS_ad url =
     (if url = [] then
        \<lparr>name = ''HTTPS Security'', status = Warning, score = 5,
         message = ''Could not determine if your site uses HTTPS.''\<rparr>
      else if startsWith (toLowerCase url) ''https://'' then
        \<lparr>name = ''HTTPS Security'', status = Pass, score = 10,
         message = ''Your website uses HTTPS (secure connection).''\<rparr>
      else
        \<lparr>name = ''HTTPS Security'', status = Fail, score = 0,
         message = ''Your website does not use HTTPS.''\<rparr>)"

definition checkNavigation :: "document \<Rightarrow> check_result" where
  "checkNavigation doc =
     (let navElements = querySelectorAll doc [Compound [Type ''nav''], Compound [AttrEquals ''role'' ''navigation'']];
          headerNav = querySelector doc
            [Descendant [Type ''header''] [Type ''nav''], Descendant [Type ''header''] [Type ''ul''],
             Compound [Class ''nav''], Compound [Class ''navbar''], Compound [Class ''menu'']]
      in if length navElements = 0 \<and> headerNav = None then
           \<lparr>name = ''Navigation Structure'', status = Fail, score = 0,
            message = ''No clear navigation structure detected.''\<rparr>
         else
           (let navLinks = querySelectorAll doc
                  [Descendant [Type ''nav''] [Type ''a''], Descendant [Type ''header''] [Type ''a''],
                   Descendant [Class ''nav''] [Type ''a''], Descendant [Class ''menu''] [Type ''a'']]
            in if length navLinks < 3 then
                 \<lparr>name = ''Navigation Structure'', status = Warning, score = 5,
                  message = ''Navigation found but appears limited.''\<rparr>
               else
                 \<lparr>name = ''Navigation Structure'', status = Pass, score = 10,
                  message = ''Good navigation structure detected with multiple links.''\<rparr>))"

definition checkInternalLinks_ad :: "document \<Rightarrow> string \<Rightarrow> check_result" where
  "checkInternalLinks_ad doc url =
     (let allLinks = querySelectorAll doc [Compound [Type ''a'', Attr ''href'']];
          baseDomain = hostname_or_empty url;
          internalLinks = length (filter (is_internal baseDomain) allLinks)
      in if internalLinks < 3 then
           \<lparr>name = ''Internal Links'', status = Fail, score = 0,
            message = ''Very few internal links detected ('' @ show_nat internalLinks @ '').''\<rparr>
         else if internalLinks < 8 then
           \<lparr>name = ''Internal Links'', status = Warning, score = 6,
            message = ''Some internal links present ('' @ show_nat internalLinks @ '').''\<rparr>
         else
           \<lparr>name = ''Internal Links'', status = Pass, score = 10,
            message = ''Good internal linking structure ('' @ show_nat internalLinks @ '' internal links).''\<rparr>)"

definition checkPrivacyPolicy :: "document \<Rightarrow> check_result" where
  "checkPrivacyPolicy doc =
     (let allLinks = querySelectorAll doc [Compound [Type ''a'']];
          privacyTerms = [''privacy'', ''privacy-policy'', ''privacy_policy'', ''privacypolicy''];
          hasPrivacyPolicy =
            list_ex (\<lambda>link.
              (let href = toLowerCase (case getAttribute link ''href'' of Some h \<Rightarrow> h | None \<Rightarrow> []);
                   text = toLowerCase (textContent link)
               in list_ex (\<lambda>term. str_includes href term \<or> str_includes text ''privacy'') privacyTerms))
              allLinks
      in if \<not> hasPrivacyPolicy then
           \<lparr>name = ''Privacy Policy Link'', status = Fail, score = 0,
            message = ''No Privacy Policy link detected.''\<rparr>
         else
           \<lparr>name = ''Privacy Policy Link'', status = Pass, score = 10,
            message = ''Privacy Policy link detected.''\<rparr>)"

definition checkFooter :: "document \<Rightarrow> check_result" where
  "checkFooter doc =
     (case querySelector doc [Compound [Type ''footer''], Compound [AttrEquals ''role'' ''contentinfo''], Compound [Class ''footer'']] of
        None \<Rightarrow>
          \<lparr>name = ''Footer Section'', status = Warning, score = 2,
           message = ''No footer section detected.''\<rparr>
      | Some footer \<Rightarrow>
          (let footerLinks = element_querySelectorAll footer [Compound [Type ''a'']]
           in if length footerLinks < 2 then
                \<lparr>name = ''Footer Section'', status = Warning, score = 3,
                 message = ''Footer found but appears minimal.''\<rparr>
              else
                \<lparr>name = ''Footer Section'', status = Pass, score = 5,
                 message = ''Proper footer section detected with navigation links.''\<rparr>))"

record ad_results =
  ad_score :: int
  ad_url :: string
  ad_checks :: "check_result list"

definition analyzeHTML_maxScore :: int where
  "analyzeHTML_maxScore = 0 + 10 + 10 + 10 + 15 + 10 + 10 + 10 + 10 + 10 + 5"

definition analyzeHTML :: "document \<Rightarrow> string \<Rightarrow> js_error + ad_results" where
  "analyzeHTML doc url =
     (case checkMetaDescription_ad doc of
        Inl e \<Rightarrow> Inl e
      | Inr metaDescription \<Rightarrow>
          (let checks = [checkTitleTag doc, metaDescription, checkH1Tag doc, checkWordCount doc,
                         checkImageAlts_ad doc, checkHTTPS_ad url, checkNavigation doc,
                         checkInternalLinks_ad doc url, checkPrivacyPolicy doc, checkFooter doc]
           in Inr \<lparr>ad_score = finalScore (totalScore checks) analyzeHTML_maxScore,
                   ad_url = url, ad_checks = checks\<rparr>))"

definition displayResults_ad_tier :: "int \<Rightarrow> tier \<times> string" where
  \<comment> \<open>the class and the status text \<^verbatim>\<open>displayResults\<close> of \<^verbatim>\<open>adsense-checker.js\<close> selects\<close>
  "displayResults_ad_tier s =
     (if s \<ge> 80 then (Green, ''Ready for Application'')
      else if s \<ge> 50 then (Yellow, ''Needs Improvement'')
      else (Red, ''Not Ready''))"

section \<open>The static-site battery (\<^verbatim>\<open>static-checker.js\<close>)\<close>

definition endsWith :: "string \<Rightarrow> string \<Rightarrow> bool" where
  "endsWith s p = startsWith (rev s) (rev p)"

definition detectPlatform :: "string \<Rightarrow> string" where
  "detectPlatform url =
     (let lowerUrl = toLowerCase url
      in if str_includes lowerUrl ''netlify.app'' \<or> str_includes lowerUrl ''netlify.com'' then ''Netlify''
         else if str_includes lowerUrl ''github.io'' \<or> str_includes lowerUrl ''github.com'' then ''GitHub Pages''
         else if str_includes lowerUrl ''vercel.app'' \<or> str_includes lowerUrl ''vercel.com'' then ''Vercel''
         else if str_includes lowerUrl ''surge.sh'' then ''Surge''
         else if str_includes lowerUrl ''cloudflare'' then ''Cloudflare Pages''
         else if str_includes lowerUrl ''render.com'' then ''Render''
         else ''Custom/Unknown'')"

fun split_char :: "char \<Rightarrow> string \<Rightarrow> string list" where
  \<comment> \<open>\<^verbatim>\<open>s.split(d)\<close> for a one-character string \<open>d\<close>\<close>
  "split_char d [] = [[]]"
| "split_char d (c # cs) =
     (if c = d then [] # split_char d cs
      else (case split_char d cs of [] \<Rightarrow> [[c]] | p # ps \<Rightarrow> (c # p) # ps))"

definition subdomainPatterns :: "string list" where
  \<comment> \<open>the suffixes of \<^verbatim>\<open>/\.netlify\.app$/i\<close>, ... : each pattern is a literal anchored at the end,
      matched without regard to case\<close>
  "subdomainPatterns = [''.netlify.app'', ''.github.io'', ''.vercel.app'', ''.surge.sh'', ''.pages.dev'', ''.onrender.com'']"

definition checkCustomDomain :: "string \<Rightarrow> string \<Rightarrow> check_result" where
  "checkCustomDomain url platform =
     (let hostname = hostname_or_empty url;
          isSubdomain = list_ex (\<lambda>pattern. endsWith (toLowerCase hostname) pattern) subdomainPatterns
      in if isSubdomain then
           \<lparr>name = ''Custom Domain'', status = Fail, score = 3,
            message = ''Using '' @ platform @ '' subdomain. Not ideal for AdSense.''\<rparr>
         else
           (let parts = split_char CHR ''.'' hostname
            in if length parts \<ge> 2 \<and> \<not> str_includes hostname ''localhost'' then
                 \<lparr>name = ''Custom Domain'', status = Pass, score = 15,
                  message = ''Using a custom domain. Professional appearance.''\<rparr>
               else
                 \<lparr>name = ''Custom Domain'', status = Warning, score = 8,
                  message = ''Could not definitively verify custom domain status.''\<rparr>))"

definition checkHTTPS_static :: "string \<Rightarrow> check_result" where
  "checkHTTPS_static url =
     (if startsWith (toLowerCase url) ''https://'' then
        \<lparr>name = ''HTTPS Security'', status = Pass, score = 12,
         message = ''Site uses HTTPS. Secure and trusted.''\<rparr>
      else
        \<lparr>name = ''HTTPS Security'', status = Fail, score = 0,
         message = ''Site not using HTTPS.''\<rparr>)"

definition checkEssentialPages :: "document \<Rightarrow> check_result" where
  "checkEssentialPages doc =
     (let allLinks = querySelectorAll doc [Compound [Type ''a'', Attr ''href'']];
          href = (\<lambda>link. toLowerCase (case getAttribute link ''href'' of Some h \<Rightarrow> h | None \<Rightarrow> []));
          text = (\<lambda>link. toLowerCase (textContent link));
          hasPrivacy = list_ex (\<lambda>l. str_includes (href l) ''privacy'' \<or> str_includes (text l) ''privacy'') allLinks;
          hasAbout = list_ex (\<lambda>l. str_includes (href l) ''about'' \<or> str_includes (text l) ''about'') allLinks;
          hasContact = list_ex (\<lambda>l. str_includes (href l) ''contact'' \<or> str_includes (text l) ''contact'') allLinks;
          hasTerms = list_ex (\<lambda>l. str_includes (href l) ''terms'' \<or> str_includes (text l) ''terms'' \<or> str_includes (href l) ''tos'') allLinks;
          pagesFound = length (filter id [hasPrivacy, hasAbout, hasContact, hasTerms]);
          missing = (if \<not> hasPrivacy then [''Privacy Policy''] else []) @
                    (if \<not> hasAbout then [''About''] else []) @
                    (if \<not> hasContact then [''Contact''] else [])
      in if pagesFound \<le> 1 then
           \<lparr>name = ''Essential Pages'', status = Fail, score = 3,
            message = ''Missing essential pages: '' @ join '', '' missing @ ''.''\<rparr>
         else if pagesFound < 4 then
           \<lparr>name = ''Essential Pages'', status = Warning, score = 10,
            message = ''Most essential pages found ('' @ show_nat pagesFound @ ''/4). Missing: '' @ join '', '' missing @ ''.''\<rparr>
         else
           \<lparr>name = ''Essential Pages'', status = Pass, score = 15,
            message = ''All essential pages detected (Privacy, About, Contact, Terms).''\<rparr>)"

definition checkNavigation_static :: "document \<Rightarrow> check_result" where
  "checkNavigation_static doc =
     (let nav = querySelector doc
            [Compound [Type ''nav''], Compound [AttrEquals ''role'' ''navigation''], Compound [Class ''nav''],
             Compound [Class ''navbar''], Descendant [Type ''header''] [Type ''nav'']];
          navLinks = querySelectorAll doc
            [Descendant [Type ''nav''] [Type ''a''], Descendant [Type ''header''] [Type ''a''],
             Descendant [Class ''nav''] [Type ''a''], Descendant [Class ''menu''] [Type ''a'']]
      in if nav = None \<and> length navLinks < 3 then
           \<lparr>name = ''Navigation Structure'', status = Fail, score = 2,
            message = ''No clear navigation found. Poor user experience.''\<rparr>
         else if length navLinks < 5 then
           \<lparr>name = ''Navigation Structure'', status = Warning, score = 8,
            message = ''Limited navigation ('' @ show_nat (length navLinks) @ '' links).''\<rparr>
         else
           \<lparr>name = ''Navigation Structure'', status = Pass, score = 12,
            message = ''Good navigation structure ('' @ show_nat (length navLinks) @ '' links).''\<rparr>)"

definition checkContentDepth :: "document \<Rightarrow> check_result" where
  \<comment> \<open>the locals \<^verbatim>\<open>articles\<close> and \<^verbatim>\<open>h2Count\<close> are computed and never read\<close>
  "checkContentDepth doc =
     (let clone = remove_all
            [Compound [Type ''script''], Compound [Type ''style''], Compound [Type ''noscript''],
             Compound [Type ''nav''], Compound [Type ''header''], Compound [Type ''footer'']] [] (body doc);
          text = textContent clone;
          wordCount = length (words_of (trim text))
      in if wordCount < 300 then
           \<lparr>name = ''Content Depth'', status = Fail, score = 3,
            message = ''Very little content (~'' @ show_nat wordCount @ '' words). Likely rejection for thin content.''\<rparr>
         else if wordCount < 600 then
           \<lparr>name = ''Content Depth'', status = Warning, score = 8,
            message = ''Light content on this page (~'' @ show_nat wordCount @ '' words).''\<rparr>
         else if wordCount < 1000 then
           \<lparr>name = ''Content Depth'', status = Warning, score = 12,
            message = ''Moderate content (~'' @ show_nat wordCount @ '' words).''\<rparr>
         else
           \<lparr>name = ''Content Depth'', status = Pass, score = 15,
            message = ''Good content depth (~'' @ show_nat wordCount @ '' words on this page).''\<rparr>)"

definition checkMetaTags :: "document \<Rightarrow> check_result" where
  \<comment> \<open>here the optional chain is harmless: \<^verbatim>\<open>undefined > 50\<close> is false\<close>
  "checkMetaTags doc =
     (let title = querySelector doc [Compound [Type ''title'']];
          description = querySelector doc [Compound [Type ''meta'', AttrEquals ''name'' ''description'']];
          viewport = querySelector doc [Compound [Type ''meta'', AttrEquals ''name'' ''viewport'']];
          charset = querySelector doc [Compound [Type ''meta'', Attr ''charset'']];
          found = (case title of Some t \<Rightarrow> (if length (textContent t) > 10 then 1 else 0) | None \<Rightarrow> 0) +
                  (case description of
                     Some d \<Rightarrow> (case getAttribute d ''content'' of Some c \<Rightarrow> (if length c > 50 then 1 else 0) | None \<Rightarrow> 0)
                   | None \<Rightarrow> 0) +
                  (if viewport \<noteq> None then 1 else 0) +
                  (if charset \<noteq> None then 1 else (0::nat))
      in if found < 2 then
           \<lparr>name = ''Meta Tags'', status = Fail, score = 2,
            message = ''Missing critical meta tags.''\<rparr>
         else if found < 4 then
           \<lparr>name = ''Meta Tags'', status = Warning, score = 6,
            message = ''Some meta tags missing ('' @ show_nat found @ ''/4 basic tags).''\<rparr>
         else
           \<lparr>name = ''Meta Tags'', status = Pass, score = 10,
            message = ''Essential meta tags present.''\<rparr>)"

definition check404Setup :: "document \<Rightarrow> check_result" where
  \<comment> \<open>the second parameter \<^verbatim>\<open>html\<close> only feeds the local \<^verbatim>\<open>has404Link\<close>, which is never read\<close>
  "check404Setup doc =
     (let allLinks = querySelectorAll doc [Compound [Type ''a'', Attr ''href'']];
          linkCount = length (filter (\<lambda>link.
             (case getAttribute link ''href'' of
                None \<Rightarrow> False
              | Some href \<Rightarrow> href \<noteq> [] \<and> \<not> startsWith href ''#'' \<and> \<not> startsWith href ''http'')) allLinks)
      in if linkCount < 5 then
           \<lparr>name = ''404 & Error Handling'', status = Warning, score = 4,
            message = ''Cannot verify 404 page setup remotely.''\<rparr>
         else
           \<lparr>name = ''404 & Error Handling'', status = Pass, score = 8,
            message = ''Good internal linking suggests proper site structure.''\<rparr>)"

fun has_dot_tld :: "string \<Rightarrow> bool" where
  \<comment> \<open>somewhere in the string: a dot and two letters\<close>
  "has_dot_tld (c # d # e # cs) = ((c = CHR ''.'' \<and> is_alpha d \<and> is_alpha e) \<or> has_dot_tld (d # e # cs))"
| "has_dot_tld cs = False"

fun email_like :: "string \<Rightarrow> bool" where
  \<comment> \<open>\<^verbatim>\<open>/@[\w.-]+\.[a-z]{2,}/i.test(s)\<close>: the letters and the dot belong to the class
      \<^verbatim>\<open>[\w.-]\<close>, so a match lies within the run of class characters after an \<^verbatim>\<open>@\<close>, with at
      least one of them before the dot\<close>
  "email_like [] = False"
| "email_like (c # cs) =
     ((c = CHR ''@'' \<and>
       (let run = takeWhile (\<lambda>x. is_word x \<or> x = CHR ''.'' \<or> x = CHR ''-'') cs
        in run \<noteq> [] \<and> has_dot_tld (tl run)))
      \<or> email_like cs)"

text \<open>
  \<^verbatim>\<open>checkContactInfo\<close> reads the IDL attribute \<^verbatim>\<open>a.href\<close>: the empty string for an anchor
  without \<^verbatim>\<open>href\<close>, otherwise the attribute resolved against the base URL of the document,
  which is the analyser's own page.  The resolution is the browser's; it is the parameter
  \<open>resolve\<close> of the check and of the battery.
\<close>

definition a_href :: "(string \<Rightarrow> string) \<Rightarrow> node \<Rightarrow> string" where
  "a_href resolve a = (case getAttribute a ''href'' of None \<Rightarrow> [] | Some h \<Rightarrow> resolve h)"

definition checkContactInfo :: "(string \<Rightarrow> string) \<Rightarrow> document \<Rightarrow> check_result" where
  "checkContactInfo resolve doc =
     (let bodyText = toLowerCase (textContent (body doc));
          hasEmail = (email_like bodyText \<or> str_includes bodyText ''email'' \<or>
                      querySelector doc [Compound [Type ''a'', AttrStarts ''href'' ''mailto:'']] \<noteq> None);
          hasContactLink = list_ex (\<lambda>a. str_includes (toLowerCase (a_href resolve a)) ''contact'' \<or>
                                         str_includes (toLowerCase (textContent a)) ''contact'')
                             (querySelectorAll doc [Compound [Type ''a'']])
      in if \<not> hasEmail \<and> \<not> hasContactLink then
           \<lparr>name = ''Contact Information'', status = Fail, score = 2,
            message = ''No contact information detected.''\<rparr>
         else if hasEmail \<and> hasContactLink then
           \<lparr>name = ''Contact Information'', status = Pass, score = 8,
            message = ''Contact information and contact page found.''\<rparr>
         else
           \<lparr>name = ''Contact Information'', status = Warning, score = 5,
            message = ''Some contact information found.''\<rparr>)"

definition checkFooter_static :: "document \<Rightarrow> check_result" where
  \<comment> \<open>\<open>CHR 0xA9\<close> is the copyright sign\<close>
  "checkFooter_static doc =
     (case querySelector doc [Compound [Type ''footer''], Compound [Class ''footer''], Compound [AttrEquals ''role'' ''contentinfo'']] of
        None \<Rightarrow>
          \<lparr>name = ''Footer Section'', status = Warning, score = 2,
           message = ''No footer element detected.''\<rparr>
      | Some footer \<Rightarrow>
          (let footerLinks = element_querySelectorAll footer [Compound [Type ''a'']];
               hasCopyright = (str_includes (textContent footer) [CHR 0xA9] \<or>
                               str_includes (toLowerCase (textContent footer)) ''copyright'')
           in if length footerLinks < 2 \<and> \<not> hasCopyright then
                \<lparr>name = ''Footer Section'', status = Warning, score = 3,
                 message = ''Footer exists but appears minimal.''\<rparr>
              else
                \<lparr>name = ''Footer Section'', status = Pass, score = 5,
                 message = ''Complete footer with links and/or copyright.''\<rparr>))"

record static_results =
  static_score :: int
  static_url :: string
  static_platform :: string
  static_checks :: "check_result list"

definition analyzeStaticSite_maxScore :: int where
  "analyzeStaticSite_maxScore = 0 + 15 + 12 + 15 + 12 + 15 + 10 + 8 + 8 + 5"

definition analyzeStaticSite :: "(string \<Rightarrow> string) \<Rightarrow> document \<Rightarrow> string \<Rightarrow> static_results" where
  "analyzeStaticSite resolve doc url =
     (let platform = detectPlatform url;
          checks = [checkCustomDomain url platform, checkHTTPS_static url, checkEssentialPages doc,
                    checkNavigation_static doc, checkContentDepth doc, checkMetaTags doc,
                    check404Setup doc, checkContactInfo resolve doc, checkFooter_static doc]
      in \<lparr>static_score = finalScore (totalScore checks) analyzeStaticSite_maxScore,
          static_url = url, static_platform = platform, static_checks = checks\<rparr>)"

definition displayResults_static_tier :: "int \<Rightarrow> tier \<times> string" where
  "displayResults_static_tier s =
     (if s \<ge> 80 then (Green, ''Ready for AdSense'')
      else if s \<ge> 55 then (Yellow, ''Almost Ready'')
      else (Red, ''Not Ready''))"

section \<open>The text battery (\<^verbatim>\<open>low-value-analyzer.js\<close>)\<close>

subsection \<open>Word runs\<close>

text \<open>
  Several regular expressions of the text battery and of the tone rewriter are delimited by
  \<^verbatim>\<open>\b\<close>.  A word boundary lies exactly at the two ends of every maximal run of \<^verbatim>\<open>\w\<close>
  characters, so these expressions are read off the sequence of such runs and of the single
  characters between them.
\<close>

datatype token = Word string | Sep char

fun tokens :: "string \<Rightarrow> token list" where
  "tokens [] = []"
| "tokens (c # cs) =
     (if is_word c then (case tokens cs of Word w # ts \<Rightarrow> Word (c # w) # ts | ts \<Rightarrow> Word [c] # ts)
      else Sep c # tokens cs)"

fun word_runs :: "token list \<Rightarrow> string list" where
  "word_runs [] = []"
| "word_runs (Word w # ts) = w # word_runs ts"
| "word_runs (Sep c # ts) = word_runs ts"

definition match_lower_words :: "nat \<Rightarrow> string \<Rightarrow> string list" where
  \<comment> \<open>\<^verbatim>\<open>s.match(/\b[a-z]{n,}\b/g) || []\<close>: the runs made of at least \<open>n\<close> lower-case letters only\<close>
  "match_lower_words n s = filter (\<lambda>w. list_all is_lower w \<and> length w \<ge> n) (word_runs (tokens s))"

subsection \<open>The checks\<close>

definition checkWordCount_text :: "string \<Rightarrow> check_result" where
  "checkWordCount_text text =
     (let count = length (words_of text)
      in if count < 300 then
           \<lparr>name = ''Content Depth (Word Count)'', status = Fail, score = 5,
            message = ''Very thin content ('' @ show_nat count @ '' words). Likely to be flagged as low-value.''\<rparr>
         else if count < 500 then
           \<lparr>name = ''Content Depth (Word Count)'', status = Warning, score = 10,
            message = ''Light content ('' @ show_nat count @ '' words). May appear thin to Google.''\<rparr>
         else if count < 800 then
           \<lparr>name = ''Content Depth (Word Count)'', status = Warning, score = 15,
            message = ''Moderate length ('' @ show_nat count @ '' words). Acceptable but not comprehensive.''\<rparr>
         else
           \<lparr>name = ''Content Depth (Word Count)'', status = Pass, score = 20,
            message = ''Good content length ('' @ show_nat count @ '' words). Shows topical depth.''\<rparr>)"

text \<open>
  \<^verbatim>\<open>checkSentenceVariety\<close> compares the coefficient of variation
  \<^verbatim>\<open>Math.sqrt(variance) / avgLength\<close> with 0.2 and 0.4.  The mean is at least 1 (every
  sentence counts at least one piece), so \<^verbatim>\<open>cv < t\<close> is \<open>variance < (t * avgLength)\<^sup>2\<close>; the
  model evaluates this in exact arithmetic.  The language standard leaves the precision of
  \<^verbatim>\<open>Math.sqrt\<close> and \<^verbatim>\<open>Math.pow\<close> to the implementation; where the exact coefficient equals a
  threshold, the implementation can find it below.
\<close>

definition cv_below :: "rat \<Rightarrow> rat \<Rightarrow> rat \<Rightarrow> bool" where
  "cv_below variance avgLength t = (variance < (t * avgLength)\<^sup>2)"

definition checkSentenceVariety :: "string \<Rightarrow> check_result" where
  "checkSentenceVariety text =
     (let sentences = filter (\<lambda>s. length (trim s) > 0) (split_on (\<lambda>c. c \<in> set ''.!?'') text)
      in if length sentences < 5 then
           \<lparr>name = ''Sentence Variety'', status = Warning, score = 7,
            message = ''Too few sentences to analyze variety properly.''\<rparr>
         else
           (let lengths = map (\<lambda>s. length (split_on is_space (trim s))) sentences;
                avgLength = (of_nat (foldl (+) 0 lengths) :: rat) / of_nat (length lengths);
                variance = foldl (\<lambda>sum len. sum + (of_nat len - avgLength)\<^sup>2) 0 lengths / of_nat (length lengths)
            in if cv_below variance avgLength (2 / 10) then
                 \<lparr>name = ''Sentence Variety'', status = Fail, score = 4,
                  message = ''Very uniform sentence lengths. Reads robotically.''\<rparr>
               else if cv_below variance avgLength (4 / 10) then
                 \<lparr>name = ''Sentence Variety'', status = Warning, score = 10,
                  message = ''Moderate sentence variety. Could be more dynamic.''\<rparr>
               else
                 \<lparr>name = ''Sentence Variety'', status = Pass, score = 15,
                  message = ''Good sentence length variety. Natural reading flow.''\<rparr>))"

function split_blank_lines :: "string \<Rightarrow> string \<Rightarrow> string list" where
  \<comment> \<open>\<^verbatim>\<open>s.split(/\n\s*\n/)\<close>, the first argument being the piece read so far, reversed.  At a
      line feed the greedy \<^verbatim>\<open>\s*\<close> backtracks to the last line feed of the whitespace that
      follows; without one there is no match at this position.\<close>
  "split_blank_lines cur [] = [rev cur]"
| "split_blank_lines cur (c # cs) =
     (let ws = takeWhile is_space cs
      in if c = CHR 0x0A \<and> CHR 0x0A \<in> set ws
         then rev cur # split_blank_lines [] (drop (length ws - length (takeWhile (\<lambda>x. x \<noteq> CHR 0x0A) (rev ws))) cs)
         else split_blank_lines (c # cur) cs)"
  by pat_completeness auto
termination
  by (relation "measure (\<lambda>(cur, s). length s)") auto

definition checkParagraphs :: "string \<Rightarrow> check_result" where
  \<comment> \<open>with no paragraph at all \<^verbatim>\<open>avgParaLength\<close> is \<^verbatim>\<open>wordCount / 0 = Infinity\<close>, which exceeds
      150 and prints as \<^verbatim>\<open>Infinity\<close>\<close>
  "checkParagraphs text =
     (let paragraphs = filter (\<lambda>p. length (trim p) > 0) (split_blank_lines [] text);
          wordCount = length (split_on is_space text)
      in if length paragraphs \<le> 1 \<and> wordCount > 200 then
           \<lparr>name = ''Paragraph Structure'', status = Fail, score = 2,
            message = ''Content is one giant block of text. Very hard to read.''\<rparr>
         else if length paragraphs = 0 then
           \<lparr>name = ''Paragraph Structure'', status = Warning, score = 6,
            message = ''Paragraphs are too long (~Infinity words avg).''\<rparr>
         else
           (let avgParaLength = (of_nat wordCount :: rat) / of_nat (length paragraphs)
            in if avgParaLength > 150 then
                 \<lparr>name = ''Paragraph Structure'', status = Warning, score = 6,
                  message = ''Paragraphs are too long (~'' @ show_nat (nat (Math_round avgParaLength)) @ '' words avg).''\<rparr>
               else if length paragraphs < 3 \<and> wordCount > 300 then
                 \<lparr>name = ''Paragraph Structure'', status = Warning, score = 8,
                  message = ''Very few paragraph breaks for the content length.''\<rparr>
               else
                 \<lparr>name = ''Paragraph Structure'', status = Pass, score = 12,
                  message = ''Well-structured paragraphs ('' @ show_nat (length paragraphs) @ '' paragraphs).''\<rparr>))"

definition checkVocabulary :: "string \<Rightarrow> check_result" where
  "checkVocabulary text =
     (let words = match_lower_words 1 (toLowerCase text);
          uniqueWords = remdups words
      in if length words < 50 then
           \<lparr>name = ''Vocabulary Richness'', status = Warning, score = 7,
            message = ''Not enough text to assess vocabulary properly.''\<rparr>
         else
           (let lexicalDensity = (of_nat (length uniqueWords) :: rat) / of_nat (length words)
            in if lexicalDensity < 3 / 10 then
                 \<lparr>name = ''Vocabulary Richness'', status = Fail, score = 4,
                  message = ''Very repetitive vocabulary. Content feels redundant.''\<rparr>
               else if lexicalDensity < 45 / 100 then
                 \<lparr>name = ''Vocabulary Richness'', status = Warning, score = 10,
                  message = ''Moderate vocabulary variety. Some repetition detected.''\<rparr>
               else
                 \<lparr>name = ''Vocabulary Richness'', status = Pass, score = 15,
                  message = ''Rich vocabulary with good word variety.''\<rparr>))"

fun count_word :: "(string \<times> nat) list \<Rightarrow> string \<Rightarrow> (string \<times> nat) list" where
  \<comment> \<open>\<^verbatim>\<open>wordFreq[word] = (wordFreq[word] || 0) + 1\<close>; the entries keep their insertion order\<close>
  "count_word [] w = [(w, 1)]"
| "count_word ((k, n) # kns) w = (if k = w then (k, n + 1) # kns else (k, n) # count_word kns w)"

definition stopWords :: "string list" where
  "stopWords = [''this'', ''that'', ''with'', ''from'', ''have'', ''been'', ''more'', ''their'', ''when'',
     ''which'', ''about'', ''would'', ''there'', ''some'', ''what'', ''your'', ''other'', ''into'', ''also'',
     ''than'', ''only'', ''these'', ''very'', ''just'', ''over'', ''such'', ''most'', ''even'', ''after'',
     ''make'', ''like'', ''them'', ''each'', ''will'', ''they'', ''many'', ''were'', ''being'', ''could'',
     ''much'', ''does'', ''well'', ''before'', ''should'']"

text \<open>
  \<^verbatim>\<open>wordFreq\<close> is a plain object, so for the word \<^verbatim>\<open>constructor\<close> the first read
  \<^verbatim>\<open>wordFreq[word]\<close> finds the inherited function; the stored value is then a string, and
  \<^verbatim>\<open>count > threshold\<close> is false for it.  No other inherited property name is made of
  lower-case letters only.
\<close>

definition overused_words :: "string \<Rightarrow> string list" where
  \<comment> \<open>the words of the local \<^verbatim>\<open>overused\<close> of \<^verbatim>\<open>checkRepetition\<close>, in order\<close>
  "overused_words text =
     (let words = match_lower_words 4 (toLowerCase text);
          wordFreq = foldl count_word [] words;
          threshold = max 3 ((of_nat (length words) :: rat) * (3 / 100))
      in map fst
           (filter (\<lambda>(word, count). word \<notin> set stopWords)
              (filter (\<lambda>(word, count). word \<noteq> ''constructor'' \<and> of_nat count > threshold) wordFreq)))"

definition checkRepetition :: "string \<Rightarrow> check_result" where
  "checkRepetition text =
     (let overused = overused_words text
      in if length overused > 5 then
           \<lparr>name = ''Keyword/Word Repetition'', status = Fail, score = 3,
            message = ''Many overused words detected: '' @ join '', '' (take 5 overused)\<rparr>
         else if length overused > 2 then
           \<lparr>name = ''Keyword/Word Repetition'', status = Warning, score = 10,
            message = ''Some word repetition: '' @ join '', '' overused\<rparr>
         else
           \<lparr>name = ''Keyword/Word Repetition'', status = Pass, score = 15,
            message = ''No excessive word repetition detected.''\<rparr>)"

definition fillerWords :: "string list" where
  "fillerWords = [''very'', ''really'', ''actually'', ''basically'', ''literally'', ''just'', ''simply'',
     ''quite'', ''rather'', ''somewhat'', ''perhaps'', ''maybe'', ''probably'', ''certainly'', ''definitely'',
     ''absolutely'', ''extremely'', ''incredibly'', ''amazingly'', ''essentially'']"

definition toFixed1 :: "rat \<Rightarrow> string" where
  \<comment> \<open>\<^verbatim>\<open>x.toFixed(1)\<close> for \<open>x \<ge> 0\<close>, in exact arithmetic\<close>
  "toFixed1 x = (let n = nat \<lfloor>x * 10 + 1 / 2\<rfloor> in show_nat (n div 10) @ ''.'' @ show_nat (n mod 10))"

definition checkFillerWords :: "string \<Rightarrow> check_result" where
  "checkFillerWords text =
     (let words = split_on is_space (toLowerCase text);
          fillerCount = length (filter (\<lambda>word. filter is_lower word \<in> set fillerWords) words);
          fillerRatio = (of_nat fillerCount :: rat) / of_nat (length words)
      in if fillerRatio > 5 / 100 then
           \<lparr>name = ''Filler Words'', status = Fail, score = 2,
            message = ''High filler word usage ('' @ show_nat fillerCount @ '' filler words, '' @ toFixed1 (fillerRatio * 100) @ ''%).''\<rparr>
         else if fillerRatio > 25 / 1000 then
           \<lparr>name = ''Filler Words'', status = Warning, score = 6,
            message = ''Moderate filler word usage ('' @ show_nat fillerCount @ '' filler words).''\<rparr>
         else
           \<lparr>name = ''Filler Words'', status = Pass, score = 10,
            message = ''Low filler word usage. Direct, purposeful writing.''\<rparr>)"

fun quoted :: "char \<Rightarrow> string \<Rightarrow> bool" where
  \<comment> \<open>\<^verbatim>\<open>/q[^q]+q/.test(s)\<close> for a quote character \<open>q\<close>\<close>
  "quoted q [] = False"
| "quoted q (c # cs) =
     ((c = q \<and> (let inner = takeWhile (\<lambda>x. x \<noteq> q) cs in inner \<noteq> [] \<and> length inner < length cs))
      \<or> quoted q cs)"

fun list_item_line :: "bool \<Rightarrow> string \<Rightarrow> bool" where
  \<comment> \<open>\<^verbatim>\<open>/^\s*[-*]\s/m.test(s)\<close>; the first argument says that the position is a line start.
      The bullet U+2022 of the source's class lies outside the 8-bit alphabet.\<close>
  "list_item_line start [] = False"
| "list_item_line start (c # cs) =
     ((start \<and> (case dropWhile is_space (c # cs) of
                   m # x # xs \<Rightarrow> (m = CHR ''-'' \<or> m = CHR ''*'') \<and> is_space x
                 | _ \<Rightarrow> False))
      \<or> list_item_line (c = CHR 0x0A \<or> c = CHR 0x0D) cs)"

fun numbered_item :: "string \<Rightarrow> bool" where
  \<comment> \<open>\<^verbatim>\<open>/\d+\.\s/.test(s)\<close>\<close>
  "numbered_item (c # d # e # cs) = ((is_digit c \<and> d = CHR ''.'' \<and> is_space e) \<or> numbered_item (d # e # cs))"
| "numbered_item cs = False"

definition checkEngagement :: "string \<Rightarrow> check_result" where
  "checkEngagement text =
     (let hasQuestions = (CHR ''?'' \<in> set text);
          hasExclamations = (CHR ''!'' \<in> set text);
          hasQuotes = (quoted CHR 0x22 text \<or> quoted CHR 0x27 text);
          hasNumbers = list_ex (\<lambda>w. list_all is_digit w) (word_runs (tokens text));
          hasLists = (list_item_line True text \<or> numbered_item text);
          signals = length (filter id [hasQuestions, hasExclamations, hasQuotes, hasNumbers, hasLists])
      in if signals = 0 then
           \<lparr>name = ''Engagement Elements'', status = Fail, score = 1,
            message = ''No engagement elements detected. Content may feel flat.''\<rparr>
         else if signals < 3 then
           \<lparr>name = ''Engagement Elements'', status = Warning, score = 5,
            message = ''Some engagement elements present but could use more variety.''\<rparr>
         else
           \<lparr>name = ''Engagement Elements'', status = Pass, score = 8,
            message = ''Good variety of engagement elements throughout content.''\<rparr>)"

fun count_percentages :: "token list \<Rightarrow> nat" where
  \<comment> \<open>the matches of \<^verbatim>\<open>/\b\d+%/g\<close>\<close>
  "count_percentages (Word w # Sep c # ts) =
     (if list_all is_digit w \<and> c = CHR ''%'' then 1 else 0) + count_percentages (Sep c # ts)"
| "count_percentages (t # ts) = count_percentages ts"
| "count_percentages [] = 0"

definition is_year :: "string \<Rightarrow> bool" where
  \<comment> \<open>\<^verbatim>\<open>/\b(19|20)\d{2}\b/\<close> on a word run\<close>
  "is_year w = (length w = 4 \<and> list_all is_digit w \<and> (startsWith w ''19'' \<or> startsWith w ''20''))"

fun count_amounts :: "string \<Rightarrow> nat" where
  \<comment> \<open>the matches of \<^verbatim>\<open>/\$[\d,]+/g\<close>\<close>
  "count_amounts (c # d # cs) =
     (if c = CHR ''$'' \<and> (is_digit d \<or> d = CHR '','') then 1 else 0) + count_amounts (d # cs)"
| "count_amounts cs = 0"

definition capitalized :: "string \<Rightarrow> bool" where
  \<comment> \<open>\<^verbatim>\<open>[A-Z][a-z]+\<close> on a whole word run\<close>
  "capitalized w = (case w of [] \<Rightarrow> False | c # cs \<Rightarrow> is_upper c \<and> cs \<noteq> [] \<and> list_all is_lower cs)"

fun chain_rest :: "token list \<Rightarrow> token list" where
  \<comment> \<open>what is left after the further links \<^verbatim>\<open>\s[A-Z][a-z]+\<close> of a match\<close>
  "chain_rest (Sep s # Word b # ts) = (if is_space s \<and> capitalized b then chain_rest ts else Sep s # Word b # ts)"
| "chain_rest ts = ts"

function count_proper_nouns :: "token list \<Rightarrow> nat" where
  \<comment> \<open>the matches of \<^verbatim>\<open>/\b[A-Z][a-z]+(?:\s[A-Z][a-z]+)+\b/g\<close>: the greedy chains of two or more
      capitalized runs, one whitespace character between neighbours\<close>
  "count_proper_nouns [] = 0"
| "count_proper_nouns (Sep s # ts) = count_proper_nouns ts"
| "count_proper_nouns [Word a] = 0"
| "count_proper_nouns (Word a # Word b # ts) = count_proper_nouns (Word b # ts)"
| "count_proper_nouns [Word a, Sep s] = 0"
| "count_proper_nouns (Word a # Sep s # Sep s' # ts) = count_proper_nouns (Sep s' # ts)"
| "count_proper_nouns (Word a # Sep s # Word b # ts) =
     (if capitalized a \<and> is_space s \<and> capitalized b then Suc (count_proper_nouns (chain_rest ts))
      else count_proper_nouns (Word b # ts))"
  by pat_completeness auto
termination
proof (relation "measure length")
  have rest: "length (chain_rest ts) \<le> length ts" for ts
    by (induction ts rule: chain_rest.induct) auto
  fix a s b ts
  show "(chain_rest ts, Word a # Sep s # Word b # ts) \<in> measure length"
    using rest [of ts] by simp
qed auto

definition checkSpecificity :: "string \<Rightarrow> check_result" where
  "checkSpecificity text =
     (let specificityScore =
            min (count_percentages (tokens text)) 3 +
            min (length (filter is_year (word_runs (tokens text)))) 3 +
            min (count_amounts text) 3 +
            min (count_proper_nouns (tokens text)) 3
      in if specificityScore = 0 then
           \<lparr>name = ''Specificity & Details'', status = Warning, score = 1,
            message = ''No specific data, dates, or names detected.''\<rparr>
         else if specificityScore < 4 then
           \<lparr>name = ''Specificity & Details'', status = Warning, score = 3,
            message = ''Some specific details present but light on data.''\<rparr>
         else
           \<lparr>name = ''Specificity & Details'', status = Pass, score = 5,
            message = ''Good use of specific details and data points.''\<rparr>)"

record text_results =
  text_score :: int
  text_wordCount :: nat
  text_checks :: "check_result list"

definition analyzeContent_maxScore :: int where
  "analyzeContent_maxScore = 0 + 20 + 15 + 12 + 15 + 15 + 10 + 8 + 5"

definition analyzeContent :: "string \<Rightarrow> text_results" where
  "analyzeContent text =
     (let checks = [checkWordCount_text text, checkSentenceVariety text, checkParagraphs text,
                    checkVocabulary text, checkRepetition text, checkFillerWords text,
                    checkEngagement text, checkSpecificity text]
      in \<lparr>text_score = finalScore (totalScore checks) analyzeContent_maxScore,
          text_wordCount = length (split_on is_space text), text_checks = checks\<rparr>)"

definition displayResults_text_tier :: "int \<Rightarrow> tier \<times> string" where
  "displayResults_text_tier s =
     (if s \<ge> 75 then (Green, ''High-Quality Content'')
      else if s \<ge> 50 then (Yellow, ''Needs Improvement'')
      else (Red, ''Low-Value Content Risk''))"

section \<open>The tone rewriter (\<^verbatim>\<open>content-humanizer.js\<close>)\<close>

subsection \<open>Sentences\<close>

fun split_sentences :: "string \<Rightarrow> string \<Rightarrow> string list" where
  \<comment> \<open>\<^verbatim>\<open>text.split(/(?<=[.!?])\s+/)\<close>, the first argument being the piece read so far,
      reversed: a separator is a maximal run of whitespace right after one of \<^verbatim>\<open>. ! ?\<close>\<close>
  "split_sentences cur [] = [rev cur]"
| "split_sentences cur [c] =
     (if is_space c \<and> cur \<noteq> [] \<and> hd cur \<in> set ''.!?'' then [rev cur, []] else [rev (c # cur)])"
| "split_sentences cur (c # d # cs) =
     (if is_space c \<and> cur \<noteq> [] \<and> hd cur \<in> set ''.!?''
      then (if is_space d then split_sentences cur (d # cs) else rev cur # split_sentences [] (d # cs))
      else split_sentences (c # cur) (d # cs))"

definition splitIntoSentences :: "string \<Rightarrow> string list" where
  "splitIntoSentences text = filter (\<lambda>s. length (trim s) > 0) (split_sentences [] text)"

subsection \<open>Replacing\<close>

text \<open>
  The casual dictionary builds \<^verbatim>\<open>new RegExp(formal, 'gi')\<close> from each key.  No key has a
  character that is special in a regular expression, so the pattern is the key itself,
  sought everywhere without regard to case; \<open>replace_ci\<close> is \<^verbatim>\<open>s.replace(regex, rep)\<close> for
  such a pattern (no replacement text of the source has a \<^verbatim>\<open>$\<close>).
\<close>

definition ci_prefix :: "string \<Rightarrow> string \<Rightarrow> bool" where
  \<comment> \<open>the key matches at the start of the string\<close>
  "ci_prefix key s = (length key \<le> length s \<and> toLowerCase (take (length key) s) = toLowerCase key)"

function replace_ci :: "string \<Rightarrow> string \<Rightarrow> string \<Rightarrow> string" where
  "replace_ci key rep [] = []"
| "replace_ci key rep (c # cs) =
     (if ci_prefix key (c # cs) then rep @ replace_ci key rep (drop (length key - 1) cs)
      else c # replace_ci key rep cs)"
  by pat_completeness auto
termination
  by (relation "measure (\<lambda>(key, rep, s). length s)") auto

text \<open>
  The story and professional dictionaries and the contraction lists wrap their patterns in
  \<^verbatim>\<open>\b\<close>.  Each pattern starts and ends with a letter, so a match starts where a word run
  starts, ends where a word run ends, and every word run and every character between runs
  of the pattern is matched by a whole run or by that character of the text: the pattern
  matches a stretch of the token sequence of the text.  \<open>replace_words\<close> is
  \<^verbatim>\<open>s.replace(/\bkey\b/g, rep)\<close>, with the flag \<^verbatim>\<open>i\<close> when its first argument is true.
\<close>

fun token_matches :: "bool \<Rightarrow> token \<Rightarrow> token \<Rightarrow> bool" where
  \<comment> \<open>a token of the pattern against a token of the text\<close>
  "token_matches ci (Word p) (Word x) = (if ci then toLowerCase x = toLowerCase p else x = p)"
| "token_matches ci (Sep a) (Sep c) = (c = a)"
| "token_matches ci (Word p) (Sep c) = False"
| "token_matches ci (Sep a) (Word x) = False"

fun tok_match :: "bool \<Rightarrow> token list \<Rightarrow> token list \<Rightarrow> bool" where
  "tok_match ci [] ts = True"
| "tok_match ci (p # ps) [] = False"
| "tok_match ci (p # ps) (t # ts) = (token_matches ci p t \<and> tok_match ci ps ts)"

function tok_replace :: "bool \<Rightarrow> token list \<Rightarrow> token list \<Rightarrow> token list \<Rightarrow> token list" where
  "tok_replace ci pat rep [] = []"
| "tok_replace ci pat rep (t # ts) =
     (if tok_match ci pat (t # ts) then rep @ tok_replace ci pat rep (drop (length pat - 1) ts)
      else t # tok_replace ci pat rep ts)"
  by pat_completeness auto
termination
  by (relation "measure (\<lambda>(ci, pat, rep, ts). length ts)") auto

fun untokenize :: "token list \<Rightarrow> string" where
  "untokenize [] = []"
| "untokenize (Word w # ts) = w @ untokenize ts"
| "untokenize (Sep c # ts) = c # untokenize ts"

definition replace_words :: "bool \<Rightarrow> string \<Rightarrow> string \<Rightarrow> string \<Rightarrow> string" where
  "replace_words ci key rep s = untokenize (tok_replace ci (tokens key) (tokens rep) (tokens s))"

fun tok_occurs :: "bool \<Rightarrow> token list \<Rightarrow> token list \<Rightarrow> bool" where
  "tok_occurs ci pat [] = False"
| "tok_occurs ci pat (t # ts) = (tok_match ci pat (t # ts) \<or> tok_occurs ci pat ts)"

definition contains_word :: "bool \<Rightarrow> string \<Rightarrow> string \<Rightarrow> bool" where
  \<comment> \<open>\<^verbatim>\<open>/\bkey\b/.test(s)\<close>, with the flag \<^verbatim>\<open>i\<close> when the first argument is true\<close>
  "contains_word ci key s = tok_occurs ci (tokens key) (tokens s)"

subsection \<open>The tone dictionaries\<close>

text \<open>
  \<^verbatim>\<open>Object.entries\<close> lists the keys in insertion order; the key \<^verbatim>\<open>utilize\<close>, written twice
  in the casual literal, is one entry.
\<close>

definition casualReplacements :: "(string \<times> string) list" where
  "casualReplacements =
     [(''utilize'', ''use''), (''implement'', ''put in place''), (''demonstrate'', ''show''),
      (''facilitate'', ''help with''), (''regarding'', ''about''), (''concerning'', ''about''),
      (''commence'', ''start''), (''terminate'', ''end''), (''endeavor'', ''try''),
      (''sufficient'', ''enough''), (''numerous'', ''lots of''), (''approximately'', ''about''),
      (''subsequently'', ''then''), (''nevertheless'', ''but still''), (''furthermore'', ''also''),
      (''therefore'', ''so''), (''however'', ''but''), (''additionally'', ''plus''),
      (''consequently'', ''so''), (''In conclusion'', ''So basically''),
      (''It is important to note that'', ''Keep in mind that''),
      (''It should be noted that'', ''Just so you know''), (''In order to'', ''To''),
      (''Due to the fact that'', ''Because''), (''For the purpose of'', ''To''),
      (''In the event that'', ''If''), (''At this point in time'', ''Now''),
      (''In the near future'', ''Soon''), (''In spite of the fact that'', ''Even though'')]"

definition storyReplacements :: "(string \<times> string) list" where
  "storyReplacements =
     [(''utilize'', ''work with''), (''implement'', ''bring to life''), (''demonstrate'', ''show firsthand''),
      (''experience'', ''journey through''), (''discover'', ''stumble upon''), (''learn'', ''come to realize''),
      (''understand'', ''grasp''), (''important'', ''crucial''), (''significant'', ''remarkable''),
      (''interesting'', ''fascinating'')]"

definition professionalReplacements :: "(string \<times> string) list" where
  "professionalReplacements =
     [(''lots of'', ''numerous''), (''a lot'', ''significantly''), (''really'', ''substantially''),
      (''very'', ''considerably''), (''get'', ''obtain''), (''got'', ''obtained''), (''show'', ''demonstrate''),
      (''use'', ''utilize''), (''help'', ''assist''), (''need'', ''require''), (''want'', ''desire''),
      (''think'', ''believe''), (''know'', ''understand''), (''good'', ''beneficial''),
      (''bad'', ''detrimental''), (''big'', ''substantial''), (''small'', ''minimal'')]"

definition applyCasualTone :: "string list \<Rightarrow> string list" where
  "applyCasualTone sentences =
     map (\<lambda>sentence. foldl (\<lambda>newSentence (formal, casual). replace_ci formal casual newSentence)
                        sentence casualReplacements) sentences"

definition applyStoryTone :: "string list \<Rightarrow> string list" where
  "applyStoryTone sentences =
     map (\<lambda>sentence. foldl (\<lambda>newSentence (original, story). replace_words True original story newSentence)
                        sentence storyReplacements) sentences"

definition applyProfessionalTone :: "string list \<Rightarrow> string list" where
  "applyProfessionalTone sentences =
     map (\<lambda>sentence. foldl (\<lambda>newSentence (casual, professional). replace_words True casual professional newSentence)
                        sentence professionalReplacements) sentences"

subsection \<open>The randomized stages\<close>

text \<open>
  \<^verbatim>\<open>Math.random()\<close> is the only effect of the rewriter.  Its results are a sequence
  \<open>rnd 0, rnd 1, ...\<close> of numbers in \<open>[0, 1)\<close>, and the number of draws made so far is the
  state the two randomized stages thread through their sentences.
\<close>

definition lower_first :: "string \<Rightarrow> string" where
  \<comment> \<open>\<^verbatim>\<open>sentence.charAt(0).toLowerCase() + sentence.slice(1)\<close>\<close>
  "lower_first s = (case s of [] \<Rightarrow> [] | c # cs \<Rightarrow> to_lower c # cs)"

definition pick :: "string list \<Rightarrow> rat \<Rightarrow> string" where
  \<comment> \<open>\<^verbatim>\<open>xs[Math.floor(r * xs.length)]\<close>; outside the array it is \<^verbatim>\<open>undefined\<close>, which the
      concatenation prints\<close>
  "pick xs r = (let i = \<lfloor>r * of_nat (length xs)\<rfloor>
                in if 0 \<le> i \<and> nat i < length xs then xs ! nat i else ''undefined'')"

definition intros :: "string list" where
  "intros = [''Interestingly, '', ''What's worth noting is that '', ''Here's the thing: '',
             ''The reality is, '', ''Looking at this closely, '']"

fun vary_from :: "(nat \<Rightarrow> rat) \<Rightarrow> nat \<Rightarrow> nat \<Rightarrow> string list \<Rightarrow> string list \<times> nat" where
  \<comment> \<open>the callback of \<^verbatim>\<open>varySentenceStructure\<close> from index \<open>i\<close> on, after \<open>n\<close> draws\<close>
  "vary_from rnd n i [] = ([], n)"
| "vary_from rnd n i (sentence # rest) =
     (if i mod 3 \<noteq> 0 then
        (let (out, n') = vary_from rnd n (i + 1) rest in (sentence # out, n'))
      else if rnd n > 7 / 10 \<and>
              \<not> list_ex (startsWith sentence) [''Interestingly'', ''What's'', ''Here's'', ''The reality'', ''Looking'']
      then
        (let intro = pick intros (rnd (n + 1));
             (out, n') = vary_from rnd (n + 2) (i + 1) rest
         in ((intro @ lower_first sentence) # out, n'))
      else
        (let (out, n') = vary_from rnd (n + 1) (i + 1) rest in (sentence # out, n')))"

definition varySentenceStructure :: "(nat \<Rightarrow> rat) \<Rightarrow> nat \<Rightarrow> string list \<Rightarrow> string list \<times> nat" where
  "varySentenceStructure rnd n sentences = vary_from rnd n 0 sentences"

definition transitions_of :: "string \<Rightarrow> string list" where
  "transitions_of tone =
     (if tone = ''casual'' then [''Also, '', ''And '', ''Plus, '', ''So '', ''Now, '']
      else if tone = ''story'' then [''Then, '', ''Next, '', ''Meanwhile, '', ''Eventually, '', ''As it turns out, '']
      else if tone = ''professional'' then [''Furthermore, '', ''Additionally, '', ''Moreover, '', ''Subsequently, '', ''Consequently, '']
      else [''Also, '', ''And '', ''Plus, '', ''So '', ''Now, ''])"

fun transitions_from :: "(nat \<Rightarrow> rat) \<Rightarrow> string list \<Rightarrow> nat \<Rightarrow> nat \<Rightarrow> string list \<Rightarrow> string list \<times> nat" where
  \<comment> \<open>the callback of \<^verbatim>\<open>addNaturalTransitions\<close> from index \<open>i\<close> on, after \<open>n\<close> draws\<close>
  "transitions_from rnd transitions n i [] = ([], n)"
| "transitions_from rnd transitions n i (sentence # rest) =
     (if i > 0 \<and> i mod 4 = 0 then
        (if rnd n > 5 / 10 then
           (let transition = pick transitions (rnd (n + 1));
                (out, n') = transitions_from rnd transitions (n + 2) (i + 1) rest
            in if \<not> list_ex (startsWith sentence)
                       [''Furthermore'', ''Additionally'', ''Moreover'', ''Also'', ''And'', ''Plus'', ''Then'', ''Next'']
               then ((transition @ lower_first sentence) # out, n')
               else (sentence # out, n'))
         else
           (let (out, n') = transitions_from rnd transitions (n + 1) (i + 1) rest in (sentence # out, n')))
      else
        (let (out, n') = transitions_from rnd transitions n (i + 1) rest in (sentence # out, n')))"

definition addNaturalTransitions :: "(nat \<Rightarrow> rat) \<Rightarrow> nat \<Rightarrow> string list \<Rightarrow> string \<Rightarrow> string list \<times> nat" where
  "addNaturalTransitions rnd n sentences tone = transitions_from rnd (transitions_of tone) n 0 sentences"

subsection \<open>The deterministic stages\<close>

definition commonWords :: "string list" where
  "commonWords = [''the'', ''a'', ''an'', ''and'', ''or'', ''but'', ''in'', ''on'', ''at'', ''to'', ''for'']"

fun drop_repeats :: "string \<Rightarrow> string list \<Rightarrow> string list" where
  \<comment> \<open>the loop of \<^verbatim>\<open>removeRepetition\<close>; the first argument is \<^verbatim>\<open>lastWord\<close>\<close>
  "drop_repeats lastWord [] = []"
| "drop_repeats lastWord (word # ws) =
     (if toLowerCase word = toLowerCase lastWord \<and> toLowerCase word \<notin> set commonWords
      then drop_repeats lastWord ws
      else word # drop_repeats word ws)"

definition removeRepetition :: "string \<Rightarrow> string" where
  "removeRepetition text = join '' '' (drop_repeats [] (split_on is_space text))"

definition contractions :: "(bool \<times> string \<times> string) list" where
  \<comment> \<open>the replacements of \<^verbatim>\<open>addHumanTouches\<close> for the casual and story tones, in order; the
      flag is the regular expression's \<^verbatim>\<open>i\<close>\<close>
  "contractions =
     [(True, ''do not'', ''don't''), (True, ''cannot'', ''can't''), (True, ''will not'', ''won't''),
      (True, ''should not'', ''shouldn't''), (True, ''would not'', ''wouldn't''),
      (True, ''could not'', ''couldn't''), (True, ''it is'', ''it's''), (True, ''that is'', ''that's''),
      (True, ''what is'', ''what's''), (True, ''there is'', ''there's''), (False, ''I am'', ''I'm''),
      (True, ''you are'', ''you're''), (True, ''they are'', ''they're''), (True, ''we are'', ''we're'')]"

definition expansions :: "(bool \<times> string \<times> string) list" where
  \<comment> \<open>the replacements of \<^verbatim>\<open>addHumanTouches\<close> for the professional tone, in order\<close>
  "expansions =
     [(True, ''don't'', ''do not''), (True, ''can't'', ''cannot''), (True, ''won't'', ''will not''),
      (True, ''shouldn't'', ''should not''), (True, ''wouldn't'', ''would not''),
      (True, ''couldn't'', ''could not''), (True, ''it's'', ''it is''), (True, ''that's'', ''that is''),
      (False, ''I'm'', ''I am'')]"

definition replace_each :: "(bool \<times> string \<times> string) list \<Rightarrow> string \<Rightarrow> string" where
  \<comment> \<open>a chain \<^verbatim>\<open>result.replace(...).replace(...)\<close>\<close>
  "replace_each reps s = foldl (\<lambda>result (ci, key, rep). replace_words ci key rep result) s reps"

definition addHumanTouches :: "string \<Rightarrow> string \<Rightarrow> string" where
  "addHumanTouches text tone =
     (let result = (if tone = ''casual'' \<or> tone = ''story'' then replace_each contractions text else text)
      in if tone = ''professional'' then replace_each expansions result else result)"

definition before_human_touches :: "(nat \<Rightarrow> rat) \<Rightarrow> string \<Rightarrow> string \<Rightarrow> string" where
  \<comment> \<open>the variable \<^verbatim>\<open>result\<close> of \<^verbatim>\<open>humanizeText\<close> after step 5, before \<^verbatim>\<open>addHumanTouches\<close>\<close>
  "before_human_touches rnd text tone =
     (let sentences = splitIntoSentences text;
          sentences = (if tone = ''casual'' then applyCasualTone sentences
                       else if tone = ''story'' then applyStoryTone sentences
                       else if tone = ''professional'' then applyProfessionalTone sentences
                       else sentences);
          (sentences, n) = varySentenceStructure rnd 0 sentences;
          (sentences, n) = addNaturalTransitions rnd n sentences tone
      in removeRepetition (join '' '' sentences))"

definition humanizeText :: "(nat \<Rightarrow> rat) \<Rightarrow> string \<Rightarrow> string \<Rightarrow> string" where
  \<comment> \<open>the first argument is the sequence of results of \<^verbatim>\<open>Math.random()\<close>\<close>
  "humanizeText rnd text tone =
     (let sentences = splitIntoSentences text;
          sentences = (if tone = ''casual'' then applyCasualTone sentences
                       else if tone = ''story'' then applyStoryTone sentences
                       else if tone = ''professional'' then applyProfessionalTone sentences
                       else sentences);
          (sentences, n) = varySentenceStructure rnd 0 sentences;
          (sentences, n) = addNaturalTransitions rnd n sentences tone;
          result = removeRepetition (join '' '' sentences)
      in addHumanTouches result tone)"

section \<open>The statements of the specification\<close>

text \<open>
  The specification states the aggregate of a battery as
  \<open>round(100 * \<Sigma>score / \<Sigma>weight)\<close> and the tiers as a ladder with two thresholds.  The two
  definitions below follow these words; the theorems compare them with the code.
\<close>

definition normalized_score :: "check_result list \<Rightarrow> int \<Rightarrow> int" where
  "normalized_score checks weights = Math_round (100 * of_int (sum_list (map score checks)) / of_int weights)"

definition two_threshold_ladder :: "int \<Rightarrow> int \<Rightarrow> int \<Rightarrow> tier" where
  "two_threshold_ladder hi lo s = (if s \<ge> hi then Green else if s \<ge> lo then Yellow else Red)"

section \<open>Example inputs\<close>

definition doc_empty :: document where
  \<comment> \<open>\<^verbatim>\<open><html><head></head><body></body></html>\<close>\<close>
  "doc_empty = \<lparr>html_attributes = [], head = Element ''head'' [] [], body = Element ''body'' [] []\<rparr>"

definition doc_meta_without_content :: document where
  \<comment> \<open>\<^verbatim>\<open><html><head><meta name="description"></head><body></body></html>\<close>\<close>
  "doc_meta_without_content =
     \<lparr>html_attributes = [],
      head = Element ''head'' [] [Element ''meta'' [(''name'', ''description'')] []],
      body = Element ''body'' [] []\<rparr>"

definition doc_viewport_canonical :: document where
  \<comment> \<open>\<^verbatim>\<open><html><head><meta name="viewport" content="width=device-width, initial-scale=1.0">\<close>
      \<^verbatim>\<open><link rel="canonical" href="http://example.com/"></head><body></body></html>\<close>\<close>
  "doc_viewport_canonical =
     \<lparr>html_attributes = [],
      head = Element ''head'' []
        [Element ''meta'' [(''name'', ''viewport''), (''content'', ''width=device-width, initial-scale=1.0'')] [],
         Element ''link'' [(''rel'', ''canonical''), (''href'', ''http://example.com/'')] []],
      body = Element ''body'' [] []\<rparr>"

definition doc_with_title :: "string \<Rightarrow> document" where
  \<comment> \<open>\<^verbatim>\<open><html><head><title>...</title></head><body></body></html>\<close>\<close>
  "doc_with_title t =
     \<lparr>html_attributes = [],
      head = Element ''head'' [] [Element ''title'' [] [TextNode t]],
      body = Element ''body'' [] []\<rparr>"

definition title_30 :: string where
  "title_30 = ''A title of thirty characters..''"

definition title_70 :: string where
  "title_70 = ''A title that is exactly seventy characters long, which is still fine..''"

definition repeated_word :: "nat \<Rightarrow> string \<Rightarrow> string" where
  \<comment> \<open>\<open>n\<close> instances of a word, one space between neighbours\<close>
  "repeated_word n w = join '' '' (replicate n w)"

section \<open>Notions of the statements about the tone rewriter\<close>

fun ci_occurs :: "string \<Rightarrow> string \<Rightarrow> bool" where
  \<comment> \<open>\<^verbatim>\<open>new RegExp(key, 'i').test(s)\<close> for a key of the casual dictionary\<close>
  "ci_occurs key [] = False"
| "ci_occurs key (c # cs) = (ci_prefix key (c # cs) \<or> ci_occurs key cs)"

fun normal :: "token list \<Rightarrow> bool" where
  \<comment> \<open>the token sequences of strings: runs are maximal and made of word characters\<close>
  "normal [] = True"
| "normal (Sep c # ts) = (\<not> is_word c \<and> normal ts)"
| "normal [Word w] = (w \<noteq> [] \<and> list_all is_word w)"
| "normal (Word w # Word v # ts) = False"
| "normal (Word w # Sep c # ts) = (w \<noteq> [] \<and> list_all is_word w \<and> normal (Sep c # ts))"

fun harmless :: "bool \<Rightarrow> token list \<Rightarrow> token list \<Rightarrow> bool" where
  \<comment> \<open>a replacement text cannot take part in a match of a pattern \<^verbatim>\<open>\bX'Y\b\<close>: its first run
      is not \<open>Y\<close>, its last run is not \<open>X\<close>, and the pattern does not occur in it\<close>
  "harmless ci [Word X, Sep a, Word Y] (Word h # r) =
     (\<not> token_matches ci (Word Y) (Word h) \<and>
      (case last (Word h # r) of Word l \<Rightarrow> \<not> token_matches ci (Word X) (Word l) | Sep c \<Rightarrow> False) \<and>
      \<not> tok_occurs ci [Word X, Sep a, Word Y] (Word h # r))"
| "harmless ci pat rep = False"

section \<open>The regular expression \<^verbatim>\<open>\bkey\b\<close> character by character\<close>

text \<open>
  \<^verbatim>\<open>s.replace(/\bkey\b/g, rep)\<close> scans \<^verbatim>\<open>s\<close> from the left. At each position it tries the
  literal \<^verbatim>\<open>key\<close> between two word boundaries; a boundary lies between two positions exactly
  when one of them holds a \<^verbatim>\<open>\w\<close> character and the other does not (the ends of the string
  count as not holding one). After a match the scan resumes behind it. \<^const>\<open>replace_words\<close>
  above reads the same replacement on runs of \<^verbatim>\<open>\w\<close> characters; the two are shown equal
  below for every key that begins and ends with a \<^verbatim>\<open>\w\<close> character, which all keys of the
  rewriter do. The keys are never empty and hold no character that is special in a regular
  expression; the replacements hold no \<^verbatim>\<open>$\<close>.
\<close>

definition word_at :: "char option \<Rightarrow> bool" where
  "word_at p = (case p of None \<Rightarrow> False | Some c \<Rightarrow> is_word c)"

definition boundary :: "char option \<Rightarrow> char option \<Rightarrow> bool" where
  "boundary p n = (word_at p \<noteq> word_at n)"

definition same_text :: "bool \<Rightarrow> string \<Rightarrow> string \<Rightarrow> bool" where
  "same_text ci m key = (if ci then toLowerCase m = toLowerCase key else m = key)"

definition hd_option :: "string \<Rightarrow> char option" where
  "hd_option s = (case s of [] \<Rightarrow> None | c # cs \<Rightarrow> Some c)"

definition bounded_match :: "bool \<Rightarrow> string \<Rightarrow> char option \<Rightarrow> string \<Rightarrow> bool" where
  "bounded_match ci key prev s =
     (let m = take (length key) s
      in length key \<le> length s \<and> same_text ci m key \<and>
         boundary prev (hd_option s) \<and>
         boundary (if m = [] then prev else Some (last m)) (hd_option (drop (length key) s)))"

function replace_bounded :: "bool \<Rightarrow> string \<Rightarrow> string \<Rightarrow> char option \<Rightarrow> string \<Rightarrow> string" where
  "replace_bounded ci key rep prev [] = []"
| "replace_bounded ci key rep prev (c # cs) =
     (if bounded_match ci key prev (c # cs)
      then rep @ replace_bounded ci key rep (Some (last (c # take (length key - 1) cs))) (drop (length key - 1) cs)
      else c # replace_bounded ci key rep (Some c) cs)"
  by pat_completeness auto
termination
  by (relation "measure (\<lambda>(ci, key, rep, prev, s). length s)") auto

definition word_ended :: "string \<Rightarrow> bool" where
  \<comment> \<open>a key of ASCII characters that begins and ends with a word character\<close>
  "word_ended key =
     (key \<noteq> [] \<and> is_word (hd key) \<and> is_word (last key) \<and> list_all (\<lambda>c. (of_char c :: nat) < 128) key)"

section \<open>The professional tone as one pass over the text\<close>

text \<open>
  The amended statement about the professional tone names nine contractions and their full
  forms and says that each whole-word occurrence of one of them is replaced by its full form
  while everything else stays.  The definitions below follow these words: \<open>expand_listed\<close>
  goes through the text once from the left; where a listed contraction stands between two
  word boundaries it writes the full form and goes on behind the contraction, and it copies
  every other character.  The flag of an entry says whether the contraction is sought in
  any letter case.
\<close>

function expand_from :: "(bool \<times> string \<times> string) list \<Rightarrow> char option \<Rightarrow> string \<Rightarrow> string" where
  \<comment> \<open>the second argument is the character before the position, \<open>None\<close> at the start\<close>
  "expand_from reps prev [] = []"
| "expand_from reps prev (c # cs) =
     (case find (\<lambda>(ci, key, full). bounded_match ci key prev (c # cs)) reps of
        Some (ci, key, full) \<Rightarrow>
          full @ expand_from reps (Some (last (c # take (length key - 1) cs))) (drop (length key - 1) cs)
      | None \<Rightarrow> c # expand_from reps (Some c) cs)"
  by pat_completeness auto
termination
  by (relation "measure (\<lambda>(reps, prev, s). length s)") auto

definition listed_contractions :: "(bool \<times> string \<times> string) list" where
  "listed_contractions =
     [(True, ''don't'', ''do not''), (True, ''can't'', ''cannot''), (True, ''won't'', ''will not''),
      (True, ''shouldn't'', ''should not''), (True, ''wouldn't'', ''would not''),
      (True, ''couldn't'', ''could not''), (True, ''it's'', ''it is''), (True, ''that's'', ''that is''),
      (False, ''I'm'', ''I am'')]"

definition expand_listed :: "string \<Rightarrow> string" where
  "expand_listed s = expand_from listed_contractions None s"

section \<open>Auxiliary functions of the proofs\<close>

text \<open>
  \<open>tok_expand\<close> is the pass of \<open>expand_from\<close> on token sequences and \<open>tok_replace_each\<close> the
  chain of replacements on them.  \<open>apart\<close> says that a match of one pattern \<^verbatim>\<open>\bX'Y\b\<close> cannot
  end in the word run in which a match of another begins.  \<open>keys_alone\<close> checks, for each
  key of a dictionary that is applied without word boundaries, that in the sentence made of
  the key between two letters \<^verbatim>\<open>x\<close> no earlier key occurs, that the key is not found one
  position early, and that no later key occurs once the key is replaced; the keys come with
  their lower-case forms.
\<close>

function tok_expand :: "(bool \<times> string \<times> string) list \<Rightarrow> token list \<Rightarrow> token list" where
  "tok_expand reps [] = []"
| "tok_expand reps (t # ts) =
     (case find (\<lambda>(ci, key, full). tok_match ci (tokens key) (t # ts)) reps of
        Some (ci, key, full) \<Rightarrow> tokens full @ tok_expand reps (drop (length (tokens key) - 1) ts)
      | None \<Rightarrow> t # tok_expand reps ts)"
  by pat_completeness auto
termination
  by (relation "measure (\<lambda>(reps, ts). length ts)") auto

definition tok_replace_each :: "(bool \<times> string \<times> string) list \<Rightarrow> token list \<Rightarrow> token list" where
  "tok_replace_each reps ts = foldl (\<lambda>T (ci, key, rep). tok_replace ci (tokens key) (tokens rep) T) ts reps"

fun apart :: "token list \<Rightarrow> token list \<Rightarrow> bool" where
  "apart [Word X, Sep a, Word Y] [Word X', Sep a', Word Y'] = (toLowerCase Y \<noteq> toLowerCase X')"
| "apart p q = False"

fun prefix_of :: "string \<Rightarrow> string \<Rightarrow> bool" where
  "prefix_of [] s = True"
| "prefix_of (p # ps) [] = False"
| "prefix_of (p # ps) (c # cs) = (if p = c then prefix_of ps cs else False)"

fun occurs_in :: "string \<Rightarrow> string \<Rightarrow> bool" where
  "occurs_in p [] = False"
| "occurs_in p (c # cs) = (if prefix_of p (c # cs) then True else occurs_in p cs)"

fun keys_alone :: "string list \<Rightarrow> (string \<times> string \<times> string) list \<Rightarrow> bool" where
  "keys_alone pre [] = True"
| "keys_alone pre ((k, lk, v) # post) =
     (list_all (\<lambda>p. \<not> occurs_in p (''x'' @ lk @ ''x'')) pre \<and>
      \<not> prefix_of lk (''x'' @ lk @ ''x'') \<and> 2 \<le> length lk \<and>
      list_all (\<lambda>(k', lk', v'). \<not> occurs_in lk' (toLowerCase (''x'' @ v @ ''x''))) post \<and>
      keys_alone (pre @ [lk]) post)"

section \<open>Properties\<close>

declare show_nat.simps [simp del] split_on.simps [simp del]

subsection \<open>Character classes by bits\<close>

text \<open>
  The character classes are defined by code points.  On the eight bits of a character they
  are the following tests, which the evaluation of the examples uses.
\<close>

lemma to_lower_bits [code]:
  "to_lower (Char b0 b1 b2 b3 b4 b5 b6 b7) =
     (if b6 \<and> \<not> b5 \<and>
         (if b7 then \<not> (b4 \<and> b3 \<and> b2 \<and> b1 \<and> b0) \<and> \<not> (b4 \<and> \<not> b3 \<and> b2 \<and> b1 \<and> b0)
          else (b0 \<or> b1 \<or> b2 \<or> b3 \<or> b4) \<and> \<not> (b4 \<and> b3 \<and> (b2 \<or> (b1 \<and> b0))))
      then Char b0 b1 b2 b3 b4 True b6 b7 else Char b0 b1 b2 b3 b4 b5 b6 b7)"
  by (cases b0; cases b1; cases b2; cases b3; cases b4; cases b5; cases b6; cases b7;
      simp add: to_lower_def is_upper_def Let_def; code_simp)

lemma is_word_bits [code]:
  "is_word (Char b0 b1 b2 b3 b4 b5 b6 b7) =
     (\<not> b7 \<and>
      (if b6 then ((b0 \<or> b1 \<or> b2 \<or> b3 \<or> b4) \<and> \<not> (b4 \<and> b3 \<and> (b2 \<or> (b1 \<and> b0)))) \<or>
                  (\<not> b5 \<and> b4 \<and> b3 \<and> b2 \<and> b1 \<and> b0)
       else b5 \<and> b4 \<and> (\<not> b3 \<or> (\<not> b2 \<and> \<not> b1))))"
  by (cases b0; cases b1; cases b2; cases b3; cases b4; cases b5; cases b6; cases b7;
      simp add: is_word_def is_alpha_def is_upper_def is_lower_def is_digit_def Let_def)

subsection \<open>Rounding and sums\<close>

lemma foldl_score: "foldl (\<lambda>acc c. acc + score c) a cs = a + sum_list (map score cs)"
  by (induction cs arbitrary: a) auto

lemma totalScore_sum_list: "totalScore cs = sum_list (map score cs)"
  by (simp add: totalScore_def foldl_score)

lemma Math_round_fraction:
  assumes "0 < b"
  shows "Math_round (of_int a / of_int b) = (2 * a + b) div (2 * b)"
proof -
  have "of_int a / of_int b + 1 / 2 = (of_int (2 * a + b) :: rat) / of_int (2 * b)"
    using assms by (simp add: field_simps)
  then show ?thesis
    unfolding Math_round_def by (simp only: floor_divide_of_int_eq)
qed

lemma Math_round_of_int: "Math_round (of_int n) = n"
  using Math_round_fraction [of 1 n] by simp

lemma finalScore_100: "finalScore t 100 = t"
proof -
  have "(of_int t / of_int 100) * 100 = (of_int t :: rat)" by simp
  then show ?thesis unfolding finalScore_def by (simp only: Math_round_of_int)
qed

lemma normalized_score_100: "normalized_score cs 100 = sum_list (map score cs)"
proof -
  have "100 * of_int (sum_list (map score cs)) / of_int 100 = (of_int (sum_list (map score cs)) :: rat)"
    by simp
  then show ?thesis unfolding normalized_score_def by (simp only: Math_round_of_int)
qed

subsection \<open>Every check stays within its weight\<close>

lemma checkTitle_bounds: "0 \<le> score (checkTitle doc) \<and> score (checkTitle doc) \<le> 15"
  by (simp add: checkTitle_def Let_def)

lemma checkMetaDescription_bounds: "checkMetaDescription doc = Inr r \<Longrightarrow> 0 \<le> score r \<and> score r \<le> 12"
  by (auto simp: checkMetaDescription_def Let_def split: option.splits if_splits)

lemma checkH1Tags_bounds: "0 \<le> score (checkH1Tags doc) \<and> score (checkH1Tags doc) \<le> 12"
  by (simp add: checkH1Tags_def Let_def)

lemma checkHeadingHierarchy_bounds:
  "0 \<le> score (checkHeadingHierarchy doc) \<and> score (checkHeadingHierarchy doc) \<le> 10"
  by (simp add: checkHeadingHierarchy_def Let_def)

lemma checkImageAlts_bounds: "0 \<le> score (checkImageAlts doc) \<and> score (checkImageAlts doc) \<le> 10"
  by (simp add: checkImageAlts_def Let_def)

lemma checkInternalLinks_bounds:
  "0 \<le> score (checkInternalLinks doc url) \<and> score (checkInternalLinks doc url) \<le> 10"
  by (simp add: checkInternalLinks_def Let_def)

lemma checkExternalLinks_bounds:
  "0 \<le> score (checkExternalLinks doc url) \<and> score (checkExternalLinks doc url) \<le> 8"
  by (simp add: checkExternalLinks_def Let_def)

lemma checkHTTPS_bounds: "0 \<le> score (checkHTTPS url) \<and> score (checkHTTPS url) \<le> 10"
  by (simp add: checkHTTPS_def)

lemma checkViewport_bounds: "0 \<le> score (checkViewport doc) \<and> score (checkViewport doc) \<le> 8"
  by (simp add: checkViewport_def Let_def split: option.splits)

lemma checkCanonical_bounds: "0 \<le> score (checkCanonical doc) \<and> score (checkCanonical doc) \<le> 5"
  by (simp add: checkCanonical_def split: option.splits list.splits)

lemma checkTitleTag_bounds: "0 \<le> score (checkTitleTag doc) \<and> score (checkTitleTag doc) \<le> 10"
  by (simp add: checkTitleTag_def Let_def)

lemma checkMetaDescription_ad_bounds:
  "checkMetaDescription_ad doc = Inr r \<Longrightarrow> 0 \<le> score r \<and> score r \<le> 10"
  by (auto simp: checkMetaDescription_ad_def Let_def split: option.splits if_splits)

lemma checkH1Tag_bounds: "0 \<le> score (checkH1Tag doc) \<and> score (checkH1Tag doc) \<le> 10"
  by (simp add: checkH1Tag_def Let_def)

lemma checkWordCount_bounds: "0 \<le> score (checkWordCount doc) \<and> score (checkWordCount doc) \<le> 15"
  by (simp add: checkWordCount_def Let_def)

lemma checkImageAlts_ad_bounds: "0 \<le> score (checkImageAlts_ad doc) \<and> score (checkImageAlts_ad doc) \<le> 10"
  by (simp add: checkImageAlts_ad_def Let_def)

lemma checkHTTPS_ad_bounds: "0 \<le> score (checkHTTPS_ad url) \<and> score (checkHTTPS_ad url) \<le> 10"
  by (simp add: checkHTTPS_ad_def)

lemma checkNavigation_bounds: "0 \<le> score (checkNavigation doc) \<and> score (checkNavigation doc) \<le> 10"
  by (simp add: checkNavigation_def Let_def)

lemma checkInternalLinks_ad_bounds:
  "0 \<le> score (checkInternalLinks_ad doc url) \<and> score (checkInternalLinks_ad doc url) \<le> 10"
  by (simp add: checkInternalLinks_ad_def Let_def)

lemma checkPrivacyPolicy_bounds: "0 \<le> score (checkPrivacyPolicy doc) \<and> score (checkPrivacyPolicy doc) \<le> 10"
  by (simp add: checkPrivacyPolicy_def Let_def)

lemma checkFooter_bounds: "0 \<le> score (checkFooter doc) \<and> score (checkFooter doc) \<le> 5"
  by (simp add: checkFooter_def Let_def split: option.splits)

lemma checkCustomDomain_bounds:
  "0 \<le> score (checkCustomDomain url platform) \<and> score (checkCustomDomain url platform) \<le> 15"
  by (simp add: checkCustomDomain_def Let_def)

lemma checkHTTPS_static_bounds: "0 \<le> score (checkHTTPS_static url) \<and> score (checkHTTPS_static url) \<le> 12"
  by (simp add: checkHTTPS_static_def)

lemma checkEssentialPages_bounds:
  "0 \<le> score (checkEssentialPages doc) \<and> score (checkEssentialPages doc) \<le> 15"
  by (simp add: checkEssentialPages_def Let_def)

lemma checkNavigation_static_bounds:
  "0 \<le> score (checkNavigation_static doc) \<and> score (checkNavigation_static doc) \<le> 12"
  by (simp add: checkNavigation_static_def Let_def)

lemma checkContentDepth_bounds: "0 \<le> score (checkContentDepth doc) \<and> score (checkContentDepth doc) \<le> 15"
  by (simp add: checkContentDepth_def Let_def)

lemma checkMetaTags_bounds: "0 \<le> score (checkMetaTags doc) \<and> score (checkMetaTags doc) \<le> 10"
  by (simp add: checkMetaTags_def Let_def)

lemma check404Setup_bounds: "0 \<le> score (check404Setup doc) \<and> score (check404Setup doc) \<le> 8"
  by (simp add: check404Setup_def Let_def)

lemma checkContactInfo_bounds:
  "0 \<le> score (checkContactInfo resolve doc) \<and> score (checkContactInfo resolve doc) \<le> 8"
  by (simp add: checkContactInfo_def Let_def)

lemma checkFooter_static_bounds: "0 \<le> score (checkFooter_static doc) \<and> score (checkFooter_static doc) \<le> 5"
  by (simp add: checkFooter_static_def Let_def split: option.splits)

lemma checkWordCount_text_bounds:
  "0 \<le> score (checkWordCount_text text) \<and> score (checkWordCount_text text) \<le> 20"
  by (simp add: checkWordCount_text_def Let_def)

lemma checkSentenceVariety_bounds:
  "0 \<le> score (checkSentenceVariety text) \<and> score (checkSentenceVariety text) \<le> 15"
  by (simp add: checkSentenceVariety_def Let_def)

lemma checkParagraphs_bounds: "0 \<le> score (checkParagraphs text) \<and> score (checkParagraphs text) \<le> 12"
  by (simp add: checkParagraphs_def Let_def)

lemma checkVocabulary_bounds: "0 \<le> score (checkVocabulary text) \<and> score (checkVocabulary text) \<le> 15"
  by (simp add: checkVocabulary_def Let_def)

lemma checkRepetition_bounds: "0 \<le> score (checkRepetition text) \<and> score (checkRepetition text) \<le> 15"
  by (simp add: checkRepetition_def Let_def)

lemma checkFillerWords_bounds: "0 \<le> score (checkFillerWords text) \<and> score (checkFillerWords text) \<le> 10"
  by (simp add: checkFillerWords_def Let_def)

lemma checkEngagement_bounds: "0 \<le> score (checkEngagement text) \<and> score (checkEngagement text) \<le> 8"
  by (simp add: checkEngagement_def Let_def)

lemma checkSpecificity_bounds: "0 \<le> score (checkSpecificity text) \<and> score (checkSpecificity text) \<le> 5"
  by (simp add: checkSpecificity_def Let_def)

subsection \<open>The weights and the sums of the four batteries\<close>

lemma maxScores:
  "analyzeSEO_maxScore = 100" "analyzeHTML_maxScore = 100"
  "analyzeStaticSite_maxScore = 100" "analyzeContent_maxScore = 100"
  by (simp_all add: analyzeSEO_maxScore_def analyzeHTML_maxScore_def
      analyzeStaticSite_maxScore_def analyzeContent_maxScore_def)

lemma analyzeSEO_Inr:
  assumes "analyzeSEO doc url = Inr r"
  shows "seo_score r = sum_list (map score (seo_checks r))"
    and "0 \<le> sum_list (map score (seo_checks r))"
    and "sum_list (map score (seo_checks r)) \<le> 100"
proof -
  from assms obtain md where md: "checkMetaDescription doc = Inr md"
    and r: "r = \<lparr>seo_score = finalScore (totalScore
                  [checkTitle doc, md, checkH1Tags doc, checkHeadingHierarchy doc,
                   checkImageAlts doc, checkInternalLinks doc url, checkExternalLinks doc url,
                   checkHTTPS url, checkViewport doc, checkCanonical doc]) analyzeSEO_maxScore,
                seo_url = url,
                seo_checks = [checkTitle doc, md, checkH1Tags doc, checkHeadingHierarchy doc,
                   checkImageAlts doc, checkInternalLinks doc url, checkExternalLinks doc url,
                   checkHTTPS url, checkViewport doc, checkCanonical doc]\<rparr>"
    by (auto simp: analyzeSEO_def Let_def split: sum.splits)
  show "seo_score r = sum_list (map score (seo_checks r))"
    unfolding r by (simp add: maxScores finalScore_100 totalScore_sum_list)
  note b = checkTitle_bounds [of doc] checkMetaDescription_bounds [OF md] checkH1Tags_bounds [of doc]
    checkHeadingHierarchy_bounds [of doc] checkImageAlts_bounds [of doc]
    checkInternalLinks_bounds [of doc url] checkExternalLinks_bounds [of doc url]
    checkHTTPS_bounds [of url] checkViewport_bounds [of doc] checkCanonical_bounds [of doc]
  show "0 \<le> sum_list (map score (seo_checks r))"
    unfolding r using b by simp
  show "sum_list (map score (seo_checks r)) \<le> 100"
    unfolding r using b by simp
qed

lemma analyzeHTML_Inr:
  assumes "analyzeHTML doc url = Inr r"
  shows "ad_score r = sum_list (map score (ad_checks r))"
    and "0 \<le> sum_list (map score (ad_checks r))"
    and "sum_list (map score (ad_checks r)) \<le> 100"
proof -
  from assms obtain md where md: "checkMetaDescription_ad doc = Inr md"
    and r: "r = \<lparr>ad_score = finalScore (totalScore
                  [checkTitleTag doc, md, checkH1Tag doc, checkWordCount doc,
                   checkImageAlts_ad doc, checkHTTPS_ad url, checkNavigation doc,
                   checkInternalLinks_ad doc url, checkPrivacyPolicy doc, checkFooter doc]) analyzeHTML_maxScore,
                ad_url = url,
                ad_checks = [checkTitleTag doc, md, checkH1Tag doc, checkWordCount doc,
                   checkImageAlts_ad doc, checkHTTPS_ad url, checkNavigation doc,
                   checkInternalLinks_ad doc url, checkPrivacyPolicy doc, checkFooter doc]\<rparr>"
    by (auto simp: analyzeHTML_def Let_def split: sum.splits)
  show "ad_score r = sum_list (map score (ad_checks r))"
    unfolding r by (simp add: maxScores finalScore_100 totalScore_sum_list)
  note b = checkTitleTag_bounds [of doc] checkMetaDescription_ad_bounds [OF md] checkH1Tag_bounds [of doc]
    checkWordCount_bounds [of doc] checkImageAlts_ad_bounds [of doc] checkHTTPS_ad_bounds [of url]
    checkNavigation_bounds [of doc] checkInternalLinks_ad_bounds [of doc url]
    checkPrivacyPolicy_bounds [of doc] checkFooter_bounds [of doc]
  show "0 \<le> sum_list (map score (ad_checks r))"
    unfolding r using b by simp
  show "sum_list (map score (ad_checks r)) \<le> 100"
    unfolding r using b by simp
qed

lemma analyzeStaticSite_sum:
  "static_score (analyzeStaticSite resolve doc url) =
     sum_list (map score (static_checks (analyzeStaticSite resolve doc url)))"
  "0 \<le> sum_list (map score (static_checks (analyzeStaticSite resolve doc url)))"
  "sum_list (map score (static_checks (analyzeStaticSite resolve doc url))) \<le> 100"
proof -
  note b = checkCustomDomain_bounds [of url "detectPlatform url"] checkHTTPS_static_bounds [of url]
    checkEssentialPages_bounds [of doc] checkNavigation_static_bounds [of doc]
    checkContentDepth_bounds [of doc] checkMetaTags_bounds [of doc] check404Setup_bounds [of doc]
    checkContactInfo_bounds [of resolve doc] checkFooter_static_bounds [of doc]
  show "static_score (analyzeStaticSite resolve doc url) =
     sum_list (map score (static_checks (analyzeStaticSite resolve doc url)))"
    by (simp add: analyzeStaticSite_def Let_def maxScores finalScore_100 totalScore_sum_list)
  show "0 \<le> sum_list (map score (static_checks (analyzeStaticSite resolve doc url)))"
    using b by (simp add: analyzeStaticSite_def Let_def)
  show "sum_list (map score (static_checks (analyzeStaticSite resolve doc url))) \<le> 100"
    using b by (simp add: analyzeStaticSite_def Let_def)
qed

lemma analyzeContent_sum:
  "text_score (analyzeContent text) = sum_list (map score (text_checks (analyzeContent text)))"
  "0 \<le> sum_list (map score (text_checks (analyzeContent text)))"
  "sum_list (map score (text_checks (analyzeContent text))) \<le> 100"
proof -
  note b = checkWordCount_text_bounds [of "text"] checkSentenceVariety_bounds [of "text"]
    checkParagraphs_bounds [of "text"] checkVocabulary_bounds [of "text"] checkRepetition_bounds [of "text"]
    checkFillerWords_bounds [of "text"] checkEngagement_bounds [of "text"] checkSpecificity_bounds [of "text"]
  show "text_score (analyzeContent text) = sum_list (map score (text_checks (analyzeContent text)))"
    by (simp add: analyzeContent_def Let_def maxScores finalScore_100 totalScore_sum_list)
  show "0 \<le> sum_list (map score (text_checks (analyzeContent text)))"
    using b by (simp add: analyzeContent_def Let_def)
  show "sum_list (map score (text_checks (analyzeContent text))) \<le> 100"
    using b by (simp add: analyzeContent_def Let_def)
qed

subsection \<open>The aggregate score\<close>

text \<open>
  Claim C1.  In each of the four batteries (SEO, ad-readiness, static-site, text quality) the
  score that is returned equals \<open>round(100 * (sum of the check scores) / (sum of the weights))\<close>,
  it lies between 0 and 100, and the sum of the check scores never exceeds the sum of the
  weights.  The two HTML batteries with a meta description check return nothing when that
  check raises; the statement is about the result they return.
\<close>

theorem aggregate_score_normalized:
  "(\<forall>doc url r. analyzeSEO doc url = Inr r \<longrightarrow>
      seo_score r = normalized_score (seo_checks r) analyzeSEO_maxScore \<and>
      0 \<le> seo_score r \<and> seo_score r \<le> 100 \<and>
      sum_list (map score (seo_checks r)) \<le> analyzeSEO_maxScore) \<and>
   (\<forall>doc url r. analyzeHTML doc url = Inr r \<longrightarrow>
      ad_score r = normalized_score (ad_checks r) analyzeHTML_maxScore \<and>
      0 \<le> ad_score r \<and> ad_score r \<le> 100 \<and>
      sum_list (map score (ad_checks r)) \<le> analyzeHTML_maxScore) \<and>
   (\<forall>resolve doc url r. analyzeStaticSite resolve doc url = r \<longrightarrow>
      static_score r = normalized_score (static_checks r) analyzeStaticSite_maxScore \<and>
      0 \<le> static_score r \<and> static_score r \<le> 100 \<and>
      sum_list (map score (static_checks r)) \<le> analyzeStaticSite_maxScore) \<and>
   (\<forall>text r. analyzeContent text = r \<longrightarrow>
      text_score r = normalized_score (text_checks r) analyzeContent_maxScore \<and>
      0 \<le> text_score r \<and> text_score r \<le> 100 \<and>
      sum_list (map score (text_checks r)) \<le> analyzeContent_maxScore)"
  using analyzeSEO_Inr analyzeHTML_Inr analyzeStaticSite_sum analyzeContent_sum
  by (simp add: maxScores normalized_score_100)

theorem aggregate_score_normalized_witness:
  "\<exists>r. analyzeSEO doc_empty ''http://example.com'' = Inr r \<and> seo_score r = 13 \<and>
       seo_score r = normalized_score (seo_checks r) analyzeSEO_maxScore \<and>
       0 \<le> seo_score r \<and> seo_score r \<le> 100 \<and>
       sum_list (map score (seo_checks r)) \<le> analyzeSEO_maxScore"
proof -
  have e: "analyzeSEO doc_empty ''http://example.com'' = Inr (projr (analyzeSEO doc_empty ''http://example.com''))"
    by code_simp
  have s: "seo_score (projr (analyzeSEO doc_empty ''http://example.com'')) = 13"
    by code_simp
  from aggregate_score_normalized e s show ?thesis by blast
qed

text \<open>
  Claim C9.  In all four batteries the accumulated weight total is exactly 100, so the
  normalized score is the plain sum of the check scores.
\<close>

theorem weights_total_100:
  "analyzeSEO_maxScore = 100 \<and> analyzeHTML_maxScore = 100 \<and>
   analyzeStaticSite_maxScore = 100 \<and> analyzeContent_maxScore = 100 \<and>
   (\<forall>doc url r. analyzeSEO doc url = Inr r \<longrightarrow> seo_score r = sum_list (map score (seo_checks r))) \<and>
   (\<forall>doc url r. analyzeHTML doc url = Inr r \<longrightarrow> ad_score r = sum_list (map score (ad_checks r))) \<and>
   (\<forall>resolve doc url. static_score (analyzeStaticSite resolve doc url) =
      sum_list (map score (static_checks (analyzeStaticSite resolve doc url)))) \<and>
   (\<forall>text. text_score (analyzeContent text) = sum_list (map score (text_checks (analyzeContent text))))"
  using analyzeSEO_Inr(1) analyzeHTML_Inr(1) analyzeStaticSite_sum(1) analyzeContent_sum(1)
  by (simp add: maxScores)

theorem weights_total_100_witness:
  "\<exists>r. analyzeHTML doc_empty ''http://example.com'' = Inr r \<and> ad_score r = 7 \<and>
       ad_score r = sum_list (map score (ad_checks r))"
proof -
  have e: "analyzeHTML doc_empty ''http://example.com'' = Inr (projr (analyzeHTML doc_empty ''http://example.com''))"
    by code_simp
  have s: "ad_score (projr (analyzeHTML doc_empty ''http://example.com'')) = 7"
    by code_simp
  from weights_total_100 e s show ?thesis by blast
qed

subsection \<open>The tiers\<close>

text \<open>
  Claim C3, as amended.  Each battery maps its score to one of three tiers by a ladder with
  two thresholds: 80 and 60 for the SEO battery, 80 and 50 for the ad-readiness battery,
  80 and 55 for the static-site battery, 75 and 50 for the text battery.
\<close>

theorem tier_ladders:
  "fst (displaySEOResults_tier s) = two_threshold_ladder 80 60 s \<and>
   fst (displayResults_ad_tier s) = two_threshold_ladder 80 50 s \<and>
   fst (displayResults_static_tier s) = two_threshold_ladder 80 55 s \<and>
   fst (displayResults_text_tier s) = two_threshold_ladder 75 50 s"
  by (simp add: displaySEOResults_tier_def displayResults_ad_tier_def displayResults_static_tier_def
      displayResults_text_tier_def two_threshold_ladder_def)

text \<open>
  The claim as stated gives the ad-readiness battery the thresholds 80 and 60.  At the score
  55 the code selects the middle tier (\<^verbatim>\<open>results.score >= 50\<close>), the stated ladder the
  lowest one.
\<close>

theorem tier_ladders_counterexample:
  "fst (displayResults_ad_tier 55) = Yellow \<and> two_threshold_ladder 80 60 55 = Red \<and>
   fst (displayResults_ad_tier 55) \<noteq> two_threshold_ladder 80 60 55"
  by (simp add: displayResults_ad_tier_def two_threshold_ladder_def)

subsection \<open>A check that raises\<close>

text \<open>
  Claim C2 says that no check of an HTML battery ever throws, also when an element is
  present and its expected attribute is missing.  For a meta description element without a
  \<^verbatim>\<open>content\<close> attribute both \<^verbatim>\<open>checkMetaDescription\<close> functions raise a \<^verbatim>\<open>TypeError\<close>, and
  with them the SEO and the ad-readiness battery.
\<close>

theorem meta_description_without_content_throws:
  "checkMetaDescription doc_meta_without_content = Inl TypeError \<and>
   checkMetaDescription_ad doc_meta_without_content = Inl TypeError \<and>
   analyzeSEO doc_meta_without_content url = Inl TypeError \<and>
   analyzeHTML doc_meta_without_content url = Inl TypeError"
proof -
  have 1: "checkMetaDescription doc_meta_without_content = Inl TypeError" by code_simp
  have 2: "checkMetaDescription_ad doc_meta_without_content = Inl TypeError" by code_simp
  show ?thesis by (simp add: 1 2 analyzeSEO_def analyzeHTML_def)
qed

subsection \<open>The custom domain check\<close>

text \<open>
  Claim C6.  For the URL \<^verbatim>\<open>https://myproject.netlify.app\<close> the Custom Domain check of the
  static-site battery returns Fail with score 3 and the platform label Netlify; for
  \<^verbatim>\<open>https://example.com\<close> it returns Pass with score 15.  The check and the label are the
  first check and the platform of the battery's result, whatever the document.
\<close>

theorem custom_domain_examples:
  "detectPlatform ''https://myproject.netlify.app'' = ''Netlify'' \<and>
   checkCustomDomain ''https://myproject.netlify.app'' (detectPlatform ''https://myproject.netlify.app'') =
     \<lparr>name = ''Custom Domain'', status = Fail, score = 3,
      message = ''Using Netlify subdomain. Not ideal for AdSense.''\<rparr> \<and>
   checkCustomDomain ''https://example.com'' (detectPlatform ''https://example.com'') =
     \<lparr>name = ''Custom Domain'', status = Pass, score = 15,
      message = ''Using a custom domain. Professional appearance.''\<rparr> \<and>
   static_platform (analyzeStaticSite resolve doc ''https://myproject.netlify.app'') = ''Netlify'' \<and>
   hd (static_checks (analyzeStaticSite resolve doc ''https://myproject.netlify.app'')) =
     \<lparr>name = ''Custom Domain'', status = Fail, score = 3,
      message = ''Using Netlify subdomain. Not ideal for AdSense.''\<rparr> \<and>
   hd (static_checks (analyzeStaticSite resolve doc ''https://example.com'')) =
     \<lparr>name = ''Custom Domain'', status = Pass, score = 15,
      message = ''Using a custom domain. Professional appearance.''\<rparr>"
proof -
  have 1: "detectPlatform ''https://myproject.netlify.app'' = ''Netlify''"
    by code_simp
  have 2: "checkCustomDomain ''https://myproject.netlify.app'' ''Netlify'' =
     \<lparr>name = ''Custom Domain'', status = Fail, score = 3,
      message = ''Using Netlify subdomain. Not ideal for AdSense.''\<rparr>"
    by code_simp
  have 3: "checkCustomDomain ''https://example.com'' (detectPlatform ''https://example.com'') =
     \<lparr>name = ''Custom Domain'', status = Pass, score = 15,
      message = ''Using a custom domain. Professional appearance.''\<rparr>"
    by code_simp
  show ?thesis
    by (simp only: 1 2 3 analyzeStaticSite_def Let_def static_results.simps list.sel simp_thms)
qed

subsection \<open>The title check at its boundaries\<close>

text \<open>
  Claim C8.  In the title check of the SEO battery and of the ad-readiness battery a title of
  exactly 30 characters does not take the too-short branch and a title of exactly 70
  characters does not take the too-long branch: both get the full score of the pass branch.
\<close>

theorem title_length_boundaries:
  assumes "querySelector doc [Compound [Type ''title'']] = Some t"
    and "length (trim (textContent t)) = 30 \<or> length (trim (textContent t)) = 70"
  shows "status (checkTitle doc) = Pass \<and> score (checkTitle doc) = 15 \<and>
         status (checkTitleTag doc) = Pass \<and> score (checkTitleTag doc) = 10"
  using assms by (auto simp: checkTitle_def checkTitleTag_def Let_def)

theorem title_length_boundaries_witness:
  "status (checkTitle (doc_with_title title_30)) = Pass \<and> score (checkTitle (doc_with_title title_30)) = 15 \<and>
   status (checkTitleTag (doc_with_title title_30)) = Pass \<and> score (checkTitleTag (doc_with_title title_30)) = 10 \<and>
   status (checkTitle (doc_with_title title_70)) = Pass \<and> score (checkTitle (doc_with_title title_70)) = 15 \<and>
   status (checkTitleTag (doc_with_title title_70)) = Pass \<and> score (checkTitleTag (doc_with_title title_70)) = 10"
proof -
  have q: "querySelector (doc_with_title s) [Compound [Type ''title'']] = Some (Element ''title'' [] [TextNode s])" for s
    by (simp add: querySelector_def querySelectorAll_def doc_with_title_def documentElement_def
        matches_def matches_compound_def)
  have l30: "length (trim (textContent (Element ''title'' [] [TextNode title_30]))) = 30"
    by code_simp
  have l70: "length (trim (textContent (Element ''title'' [] [TextNode title_70]))) = 70"
    by code_simp
  from title_length_boundaries [OF q [of title_30]] l30
       title_length_boundaries [OF q [of title_70]] l70
  show ?thesis by simp
qed

subsection \<open>The SEO battery on a bare document\<close>

lemma http_not_https:
  assumes "startsWith url ''http://''"
  shows "url \<noteq> [] \<and> \<not> startsWith (toLowerCase url) ''https://''"
proof -
  from assms have "take (length ''http://'') url = ''http://''" unfolding startsWith_def .
  then have "url = ''http://'' @ drop (length ''http://'') url" by (metis append_take_drop_id)
  then obtain rest where u: "url = ''http://'' @ rest" ..
  show ?thesis unfolding u by (simp add: startsWith_def toLowerCase_def)
qed

lemma querySelector_Nil: "querySelectorAll doc sel = [] \<Longrightarrow> querySelector doc sel = None"
  by (simp add: querySelector_def)

text \<open>
  Claim C5, as amended.  For a document with no title, no meta description, no h1, no image
  and no link, analyzed with an \<^verbatim>\<open>http://\<close> URL, the SEO battery scores 0 on Title, Meta
  Description, H1 and HTTPS, 5 on Image Alt (no images) and 2 on Internal Links (very few);
  the overall score is 11 plus the scores of the Viewport and Canonical checks, hence
  between 13 and 24, and it is below 20 when the document has no viewport meta tag.
\<close>

theorem seo_bare_document:
  assumes "querySelectorAll doc [Compound [Type ''title'']] = []"
    and "querySelectorAll doc [Compound [Type ''meta'', AttrEquals ''name'' ''description'']] = []"
    and "querySelectorAll doc [Compound [Type ''h1'']] = []"
    and "querySelectorAll doc [Compound [Type ''img'']] = []"
    and "querySelectorAll doc [Compound [Type ''a'', Attr ''href'']] = []"
    and "startsWith url ''http://''"
  shows "\<exists>r. analyzeSEO doc url = Inr r \<and>
           map name (seo_checks r) =
             [''Title Tag'', ''Meta Description'', ''H1 Heading'', ''Heading Structure'',
              ''Image Alt Attributes'', ''Internal Links'', ''External Links'', ''HTTPS Security'',
              ''Mobile Viewport'', ''Canonical Tag''] \<and>
           map score (seo_checks r) =
             [0, 0, 0, 0, 5, 2, 4, 0, score (checkViewport doc), score (checkCanonical doc)] \<and>
           seo_score r = 11 + score (checkViewport doc) + score (checkCanonical doc) \<and>
           13 \<le> seo_score r \<and> seo_score r \<le> 24 \<and>
           (querySelector doc [Compound [Type ''meta'', AttrEquals ''name'' ''viewport'']] = None
              \<longrightarrow> seo_score r < 20)"
proof -
  note q = assms(1-5) assms(1-3) [THEN querySelector_Nil]
  from http_not_https [OF assms(6)] have u: "url \<noteq> []" "\<not> startsWith (toLowerCase url) ''https://''"
    by simp_all
  have md: "checkMetaDescription doc = Inr \<lparr>name = ''Meta Description'', status = Fail, score = 0,
      message = ''Missing meta description - important for click-through rates.''\<rparr>"
    by (simp add: checkMetaDescription_def q)
  let ?r = "projr (analyzeSEO doc url)"
  have r: "analyzeSEO doc url = Inr ?r"
    by (simp add: analyzeSEO_def md Let_def)
  have names: "map name (seo_checks ?r) =
             [''Title Tag'', ''Meta Description'', ''H1 Heading'', ''Heading Structure'',
              ''Image Alt Attributes'', ''Internal Links'', ''External Links'', ''HTTPS Security'',
              ''Mobile Viewport'', ''Canonical Tag'']"
    by (simp add: analyzeSEO_def md Let_def checkTitle_def checkH1Tags_def checkHeadingHierarchy_def
        checkImageAlts_def checkInternalLinks_def checkExternalLinks_def checkHTTPS_def
        checkViewport_def checkCanonical_def q u split: option.splits list.splits)
  have scores: "map score (seo_checks ?r) =
             [0, 0, 0, 0, 5, 2, 4, 0, score (checkViewport doc), score (checkCanonical doc)]"
    by (simp add: analyzeSEO_def md Let_def checkTitle_def checkH1Tags_def checkHeadingHierarchy_def
        checkImageAlts_def checkInternalLinks_def checkExternalLinks_def checkHTTPS_def q u)
  have total: "seo_score ?r = 11 + score (checkViewport doc) + score (checkCanonical doc)"
    using analyzeSEO_Inr(1) [OF r] scores by simp
  have v: "score (checkViewport doc) \<in> {0, 5, 8}"
    by (simp add: checkViewport_def Let_def split: option.splits)
  have v0: "querySelector doc [Compound [Type ''meta'', AttrEquals ''name'' ''viewport'']] = None
      \<Longrightarrow> score (checkViewport doc) = 0"
    by (simp add: checkViewport_def)
  have c: "score (checkCanonical doc) \<in> {2, 5}"
    by (simp add: checkCanonical_def split: option.splits list.splits)
  from v c total have b1: "13 \<le> seo_score ?r" and b2: "seo_score ?r \<le> 24" by auto
  from v0 c total
  have b3: "querySelector doc [Compound [Type ''meta'', AttrEquals ''name'' ''viewport'']] = None
      \<longrightarrow> seo_score ?r < 20" by auto
  show ?thesis
    by (intro exI [of _ ?r] conjI) (rule r names scores total b1 b2 b3)+
qed

theorem seo_bare_document_witness:
  "\<exists>r. analyzeSEO doc_empty ''http://example.com'' = Inr r \<and>
       map score (seo_checks r) = [0, 0, 0, 0, 5, 2, 4, 0, 0, 2] \<and> seo_score r = 13 \<and> seo_score r < 20"
proof -
  have 1: "querySelectorAll doc_empty [Compound [Type ''title'']] = []" by code_simp
  have 2: "querySelectorAll doc_empty [Compound [Type ''meta'', AttrEquals ''name'' ''description'']] = []" by code_simp
  have 3: "querySelectorAll doc_empty [Compound [Type ''h1'']] = []" by code_simp
  have 4: "querySelectorAll doc_empty [Compound [Type ''img'']] = []" by code_simp
  have 5: "querySelectorAll doc_empty [Compound [Type ''a'', Attr ''href'']] = []" by code_simp
  have 6: "startsWith ''http://example.com'' ''http://''" by code_simp
  have v: "score (checkViewport doc_empty) = 0" by code_simp
  have c: "score (checkCanonical doc_empty) = 2" by code_simp
  from seo_bare_document [OF 1 2 3 4 5 6] v c show ?thesis by auto
qed

text \<open>
  The claim as stated promises a score below 20 for every such document.  A document that
  also has a viewport meta tag with \<^verbatim>\<open>width=device-width\<close> and a canonical link scores 24.
\<close>

theorem seo_bare_document_counterexample:
  "querySelectorAll doc_viewport_canonical [Compound [Type ''title'']] = [] \<and>
   querySelectorAll doc_viewport_canonical [Compound [Type ''meta'', AttrEquals ''name'' ''description'']] = [] \<and>
   querySelectorAll doc_viewport_canonical [Compound [Type ''h1'']] = [] \<and>
   querySelectorAll doc_viewport_canonical [Compound [Type ''img'']] = [] \<and>
   querySelectorAll doc_viewport_canonical [Compound [Type ''a'', Attr ''href'']] = [] \<and>
   startsWith ''http://example.com'' ''http://'' \<and>
   (\<exists>r. analyzeSEO doc_viewport_canonical ''http://example.com'' = Inr r \<and>
        map score (seo_checks r) = [0, 0, 0, 0, 5, 2, 4, 0, 8, 5] \<and> seo_score r = 24 \<and>
        \<not> seo_score r < 20)"
proof -
  have e: "analyzeSEO doc_viewport_canonical ''http://example.com'' =
           Inr (projr (analyzeSEO doc_viewport_canonical ''http://example.com''))"
    by code_simp
  have s: "map score (seo_checks (projr (analyzeSEO doc_viewport_canonical ''http://example.com''))) =
           [0, 0, 0, 0, 5, 2, 4, 0, 8, 5]"
    by code_simp
  have t: "seo_score (projr (analyzeSEO doc_viewport_canonical ''http://example.com'')) = 24"
    by code_simp
  have q: "querySelectorAll doc_viewport_canonical [Compound [Type ''title'']] = [] \<and>
   querySelectorAll doc_viewport_canonical [Compound [Type ''meta'', AttrEquals ''name'' ''description'']] = [] \<and>
   querySelectorAll doc_viewport_canonical [Compound [Type ''h1'']] = [] \<and>
   querySelectorAll doc_viewport_canonical [Compound [Type ''img'']] = [] \<and>
   querySelectorAll doc_viewport_canonical [Compound [Type ''a'', Attr ''href'']] = [] \<and>
   startsWith ''http://example.com'' ''http://''"
    by code_simp
  from e s t have "\<exists>r. analyzeSEO doc_viewport_canonical ''http://example.com'' = Inr r \<and>
        map score (seo_checks r) = [0, 0, 0, 0, 5, 2, 4, 0, 8, 5] \<and> seo_score r = 24 \<and>
        \<not> seo_score r < 20"
    by (intro exI [of _ "projr (analyzeSEO doc_viewport_canonical ''http://example.com'')"]) simp
  with q show ?thesis by blast
qed

subsection \<open>A text that repeats one word\<close>

lemma tokens_word: "list_all is_word w \<Longrightarrow> w \<noteq> [] \<Longrightarrow> tokens w = [Word w]"
proof (induction w)
  case Nil then show ?case by simp
next
  case (Cons c w)
  then show ?case by (cases w) auto
qed

lemma tokens_word_sep:
  "list_all is_word w \<Longrightarrow> w \<noteq> [] \<Longrightarrow> \<not> is_word c \<Longrightarrow> tokens (w @ c # rest) = Word w # Sep c # tokens rest"
proof (induction w)
  case Nil then show ?case by simp
next
  case (Cons d w)
  then show ?case by (cases w) auto
qed

lemma is_lower_word: "is_lower c \<Longrightarrow> is_word c"
  by (simp add: is_word_def is_alpha_def)

lemma to_lower_alpha: "is_alpha c \<Longrightarrow> is_lower (to_lower c)"
  by (auto simp: is_alpha_def is_lower_def is_upper_def to_lower_def Let_def of_char_of)

lemma to_lower_space: "to_lower CHR '' '' = CHR '' ''"
  by (simp add: to_lower_def is_upper_def Let_def)

lemma toLowerCase_join_replicate:
  "toLowerCase (join '' '' (replicate n w)) = join '' '' (replicate n (toLowerCase w))"
proof (induction n)
  case 0 then show ?case by (simp add: toLowerCase_def)
next
  case (Suc n)
  then show ?case by (cases n) (simp_all add: toLowerCase_def to_lower_space)
qed

lemma word_runs_repeated:
  assumes "list_all is_word v" "v \<noteq> []"
  shows "word_runs (tokens (join '' '' (replicate n v))) = replicate n v"
proof (induction n)
  case 0 then show ?case by simp
next
  case (Suc n)
  show ?case
  proof (cases n)
    case 0 then show ?thesis using assms by (simp add: tokens_word)
  next
    case (Suc m)
    have "\<not> is_word CHR '' ''" by (simp add: is_word_def is_alpha_def is_upper_def is_lower_def is_digit_def)
    then have "tokens (v @ CHR '' '' # join '' '' (replicate (Suc m) v)) =
        Word v # Sep CHR '' '' # tokens (join '' '' (replicate (Suc m) v))"
      using assms by (rule tokens_word_sep [rotated 2])
    with Suc.IH Suc show ?thesis by simp
  qed
qed

lemma foldl_count_word_replicate: "foldl count_word [(v, m)] (replicate n v) = [(v, m + n)]"
  by (induction n arbitrary: m) auto

lemma count_words_replicate: "0 < n \<Longrightarrow> foldl count_word [] (replicate n v) = [(v, n)]"
  by (cases n) (simp_all add: foldl_count_word_replicate)

lemma remdups_replicate_one: "0 < n \<Longrightarrow> remdups (replicate n v) = [v]"
  by (induction n) auto

lemma repeated_word_checks:
  assumes "list_all is_alpha w" and "4 \<le> length w" and "length w \<noteq> 11" and "50 \<le> n"
  shows "checkVocabulary (repeated_word n w) =
           \<lparr>name = ''Vocabulary Richness'', status = Fail, score = 4,
            message = ''Very repetitive vocabulary. Content feels redundant.''\<rparr>"
    and "overused_words (repeated_word n w) = (if toLowerCase w \<in> set stopWords then [] else [toLowerCase w])"
    and "checkRepetition (repeated_word n w) =
           \<lparr>name = ''Keyword/Word Repetition'', status = Pass, score = 15,
            message = ''No excessive word repetition detected.''\<rparr>"
proof -
  let ?v = "toLowerCase w"
  have low: "list_all is_lower ?v"
    using assms(1) by (simp add: toLowerCase_def list_all_iff to_lower_alpha)
  then have word: "list_all is_word ?v"
    by (simp add: list_all_iff is_lower_word)
  have len: "length ?v = length w" by (simp add: toLowerCase_def)
  with assms(2) have ne: "?v \<noteq> []" by auto
  have runs: "word_runs (tokens (toLowerCase (repeated_word n w))) = replicate n ?v"
    unfolding repeated_word_def toLowerCase_join_replicate by (rule word_runs_repeated [OF word ne])
  have m1: "match_lower_words 1 (toLowerCase (repeated_word n w)) = replicate n ?v"
    using low len assms(2) by (simp add: match_lower_words_def runs)
  have m4: "match_lower_words 4 (toLowerCase (repeated_word n w)) = replicate n ?v"
    using low len assms(2) by (simp add: match_lower_words_def runs)
  from assms(4) have n: "0 < n" by simp
  have dens: "(1::rat) / of_nat n < 3 / 10"
    using assms(4) by (simp add: field_simps)
  show "checkVocabulary (repeated_word n w) =
           \<lparr>name = ''Vocabulary Richness'', status = Fail, score = 4,
            message = ''Very repetitive vocabulary. Content feels redundant.''\<rparr>"
    using assms(4) n dens m1 by (simp add: checkVocabulary_def Let_def remdups_replicate_one)
  have c: "?v \<noteq> ''constructor''" using len assms(3) by auto
  have thr: "max 3 ((of_nat n :: rat) * (3 / 100)) < of_nat n"
    using assms(4) by (simp add: max_def field_simps)
  show ov: "overused_words (repeated_word n w) = (if ?v \<in> set stopWords then [] else [?v])"
    using c thr by (simp add: overused_words_def m4 Let_def count_words_replicate [OF n])
  show "checkRepetition (repeated_word n w) =
           \<lparr>name = ''Keyword/Word Repetition'', status = Pass, score = 15,
            message = ''No excessive word repetition detected.''\<rparr>"
    by (simp add: checkRepetition_def ov)
qed

text \<open>
  Claim C4, as amended.  For a text of 3000 instances of one word of five letters the
  Vocabulary Richness check returns Fail (lexical density 1/3000).  The Repetition check
  counts the word as overused unless it is one of the stop words (its frequency 3000
  exceeds the threshold 90); with no more than two overused words it returns Pass with score
  15 and the fixed message of that branch, which names no word.
\<close>

theorem repeated_word_text:
  assumes "length w = 5" and "list_all is_alpha w"
  shows "status (checkVocabulary (repeated_word 3000 w)) = Fail \<and>
         score (checkVocabulary (repeated_word 3000 w)) = 4 \<and>
         overused_words (repeated_word 3000 w) = (if toLowerCase w \<in> set stopWords then [] else [toLowerCase w]) \<and>
         checkRepetition (repeated_word 3000 w) =
           \<lparr>name = ''Keyword/Word Repetition'', status = Pass, score = 15,
            message = ''No excessive word repetition detected.''\<rparr>"
  using repeated_word_checks [of w 3000] assms by simp

theorem repeated_word_text_witness:
  "status (checkVocabulary (repeated_word 3000 ''Hello'')) = Fail \<and>
   overused_words (repeated_word 3000 ''Hello'') = [''hello''] \<and>
   status (checkRepetition (repeated_word 3000 ''Hello'')) = Pass \<and>
   message (checkRepetition (repeated_word 3000 ''Hello'')) = ''No excessive word repetition detected.''"
proof -
  have 1: "length ''Hello'' = 5" by simp
  have 2: "list_all is_alpha ''Hello''" by code_simp
  have 3: "toLowerCase ''Hello'' = ''hello''" by code_simp
  have 4: "''hello'' \<notin> set stopWords" by code_simp
  from repeated_word_text [OF 1 2] 3 4 show ?thesis by simp
qed

text \<open>
  The claim as stated has the Repetition check list the word in its message.  For the word
  \<^verbatim>\<open>hello\<close> the check passes and its message does not hold the word; the stop word
  \<^verbatim>\<open>about\<close> is not even counted as overused.
\<close>

theorem repeated_word_text_counterexample:
  "status (checkRepetition (repeated_word 3000 ''hello'')) = Pass \<and>
   message (checkRepetition (repeated_word 3000 ''hello'')) = ''No excessive word repetition detected.'' \<and>
   \<not> str_includes (message (checkRepetition (repeated_word 3000 ''hello''))) ''hello'' \<and>
   overused_words (repeated_word 3000 ''about'') = []"
proof -
  have 1: "list_all is_alpha ''hello''" "list_all is_alpha ''about''" by code_simp+
  have 2: "toLowerCase ''about'' = ''about''" by code_simp
  have 3: "''about'' \<in> set stopWords" by code_simp
  have 4: "\<not> str_includes ''No excessive word repetition detected.'' ''hello''" by code_simp
  from repeated_word_checks(3) [of "''hello''" 3000] repeated_word_checks(2) [of "''about''" 3000] 1 2 3 4
  show ?thesis by simp
qed

subsection \<open>Token sequences\<close>

lemma normal_tokens: "normal (tokens s)"
proof (induction s)
  case Nil then show ?case by simp
next
  case (Cons c s)
  show ?case
  proof (cases "is_word c")
    case False with Cons show ?thesis by simp
  next
    case True
    show ?thesis
    proof (cases "tokens s")
      case Nil with True show ?thesis by simp
    next
      case (Cons t ts)
      with True Cons.IH show ?thesis by (cases t; cases ts rule: normal.cases) auto
    qed
  qed
qed

lemma untokenize_tokens: "untokenize (tokens s) = s"
proof (induction s)
  case Nil then show ?case by simp
next
  case (Cons c s)
  then show ?case by (cases "tokens s" rule: untokenize.cases) auto
qed

lemma tokens_untokenize: "normal ts \<Longrightarrow> tokens (untokenize ts) = ts"
proof (induction ts rule: normal.induct)
  case (5 w c ts)
  then have "tokens (untokenize (Sep c # ts)) = Sep c # ts" by simp
  moreover from 5 have "list_all is_word w" "w \<noteq> []" "\<not> is_word c" by simp_all
  ultimately show ?case using tokens_word_sep [of w c "untokenize ts"] by simp
qed (simp_all add: tokens_word)


lemma tok_match3:
  "tok_match cj [Word X, Sep a, Word Y] ts \<longleftrightarrow>
     (\<exists>x y rest. ts = Word x # Sep a # Word y # rest \<and>
        token_matches cj (Word X) (Word x) \<and> token_matches cj (Word Y) (Word y))"
proof (cases ts)
  case Nil then show ?thesis by simp
next
  case (Cons t1 ts1)
  show ?thesis
  proof (cases ts1)
    case Nil with Cons show ?thesis by (cases t1) auto
  next
    case (Cons t2 ts2)
    note c2 = this
    show ?thesis
    proof (cases ts2)
      case Nil with c2 \<open>ts = t1 # ts1\<close> show ?thesis by (cases t1; cases t2) auto
    next
      case (Cons t3 ts3)
      with c2 \<open>ts = t1 # ts1\<close> show ?thesis by (cases t1; cases t2; cases t3) auto
    qed
  qed
qed

lemma tok_replace_match:
  assumes "tok_match cj [Word X, Sep a, Word Y] (t # ts)"
  shows "tok_replace cj [Word X, Sep a, Word Y] rep (t # ts) =
           rep @ tok_replace cj [Word X, Sep a, Word Y] rep (drop 2 ts)"
  by (simp only: tok_replace.simps assms if_True) (simp add: numeral_2_eq_2)

lemma tok_replace_no_match:
  assumes "\<not> tok_match cj [Word X, Sep a, Word Y] (t # ts)"
  shows "tok_replace cj [Word X, Sep a, Word Y] rep (t # ts) =
           t # tok_replace cj [Word X, Sep a, Word Y] rep ts"
  by (simp only: tok_replace.simps assms if_False)

lemma tok_replace_starts_Sep:
  assumes "tok_replace cj [Word X, Sep a, Word Y] (Word h # r) ts = Sep c # out"
  shows "\<exists>us. ts = Sep c # us \<and> out = tok_replace cj [Word X, Sep a, Word Y] (Word h # r) us"
proof (cases ts)
  case Nil with assms show ?thesis by simp
next
  case (Cons t us)
  show ?thesis
  proof (cases "tok_match cj [Word X, Sep a, Word Y] (t # us)")
    case True
    from tok_replace_match [OF True, of "Word h # r"] assms Cons show ?thesis by simp
  next
    case False
    from tok_replace_no_match [OF False, of "Word h # r"] assms Cons show ?thesis by simp
  qed
qed

lemma tok_replace_starts_Word:
  assumes "tok_replace cj [Word X, Sep a, Word Y] (Word h # r) ts = Word y # out"
  shows "(tok_match cj [Word X, Sep a, Word Y] ts \<and> y = h) \<or>
         (\<exists>us. ts = Word y # us \<and> \<not> tok_match cj [Word X, Sep a, Word Y] ts)"
proof (cases ts)
  case Nil with assms show ?thesis by simp
next
  case (Cons t us)
  show ?thesis
  proof (cases "tok_match cj [Word X, Sep a, Word Y] (t # us)")
    case True
    from tok_replace_match [OF True, of "Word h # r"] assms Cons True show ?thesis by simp
  next
    case False
    from tok_replace_no_match [OF False, of "Word h # r"] assms Cons False show ?thesis by simp
  qed
qed

lemma occurs_after_replacement:
  assumes "last (e # E) = Word l"
    and "\<not> token_matches ci (Word X) (Word l)"
    and "\<not> tok_occurs ci [Word X, Sep a, Word Y] (e # E)"
    and "tok_occurs ci [Word X, Sep a, Word Y] ((e # E) @ out)"
  shows "tok_occurs ci [Word X, Sep a, Word Y] out"
  using assms
proof (induction E arbitrary: e)
  case Nil
  then show ?case by simp
next
  case (Cons e2 E2)
  from Cons.prems(3) have no: "\<not> tok_match ci [Word X, Sep a, Word Y] (e # e2 # E2)"
    and no2: "\<not> tok_occurs ci [Word X, Sep a, Word Y] (e2 # E2)" by simp_all
  have nm: "\<not> tok_match ci [Word X, Sep a, Word Y] (e # e2 # E2 @ out)"
  proof (cases E2)
    case Nil
    with Cons.prems(1) have "e2 = Word l" by simp
    then show ?thesis by simp
  next
    case (Cons e3 E3)
    with no show ?thesis by simp
  qed
  from Cons.prems(4) have "tok_match ci [Word X, Sep a, Word Y] (e # e2 # E2 @ out) \<or>
      tok_occurs ci [Word X, Sep a, Word Y] ((e2 # E2) @ out)"
    by (simp only: append_Cons tok_occurs.simps)
  with nm have "tok_occurs ci [Word X, Sep a, Word Y] ((e2 # E2) @ out)" by blast
  moreover from Cons.prems(1) have "last (e2 # E2) = Word l" by simp
  ultimately show ?case using Cons.IH [of e2] Cons.prems(2) no2 by blast
qed

lemma occurs_in_replaced:
  assumes h1: "\<not> token_matches ci (Word Y') (Word h)"
    and h2: "last (Word h # r) = Word l" "\<not> token_matches ci (Word X') (Word l)"
    and h3: "\<not> tok_occurs ci [Word X', Sep a', Word Y'] (Word h # r)"
  shows "tok_occurs ci [Word X', Sep a', Word Y'] (tok_replace cj [Word X, Sep a, Word Y] (Word h # r) ts)
     \<Longrightarrow> \<exists>pre S. ts = pre @ S \<and> tok_match ci [Word X', Sep a', Word Y'] S \<and>
                  \<not> tok_match cj [Word X, Sep a, Word Y] S"
proof (induction ts rule: length_induct)
  case (1 ts)
  let ?Q = "[Word X', Sep a', Word Y']" and ?P = "[Word X, Sep a, Word Y]" and ?E = "Word h # r"
  show ?case
  proof (cases ts)
    case Nil with 1 show ?thesis by simp
  next
    case (Cons t us)
    show ?thesis
    proof (cases "tok_match cj ?P (t # us)")
      case True
      have out: "tok_replace cj ?P ?E ts = ?E @ tok_replace cj ?P ?E (drop 2 us)"
        unfolding Cons by (rule tok_replace_match [OF True])
      with "1.prems" have "tok_occurs ci ?Q (?E @ tok_replace cj ?P ?E (drop 2 us))" by simp
      from occurs_after_replacement [OF h2 h3 this]
      have "tok_occurs ci ?Q (tok_replace cj ?P ?E (drop 2 us))" .
      moreover have "length (drop 2 us) < length ts" using Cons by simp
      ultimately obtain pre S where "drop 2 us = pre @ S" "tok_match ci ?Q S" "\<not> tok_match cj ?P S"
        using "1.IH" by blast
      moreover have "ts = (t # take 2 us) @ drop 2 us" using Cons by simp
      ultimately have "ts = ((t # take 2 us) @ pre) @ S" by simp
      with \<open>tok_match ci ?Q S\<close> \<open>\<not> tok_match cj ?P S\<close> show ?thesis by blast
    next
      case False
      have out: "tok_replace cj ?P ?E ts = t # tok_replace cj ?P ?E us"
        unfolding Cons by (rule tok_replace_no_match [OF False])
      with "1.prems" have "tok_match ci ?Q (t # tok_replace cj ?P ?E us) \<or>
          tok_occurs ci ?Q (tok_replace cj ?P ?E us)" by simp
      then show ?thesis
      proof
        assume "tok_occurs ci ?Q (tok_replace cj ?P ?E us)"
        moreover have "length us < length ts" using Cons by simp
        ultimately obtain pre S where "us = pre @ S" "tok_match ci ?Q S" "\<not> tok_match cj ?P S"
          using "1.IH" by blast
        then have "ts = (t # pre) @ S" using Cons by simp
        with \<open>tok_match ci ?Q S\<close> \<open>\<not> tok_match cj ?P S\<close> show ?thesis by blast
      next
        assume m: "tok_match ci ?Q (t # tok_replace cj ?P ?E us)"
        then obtain x y rest where o: "t # tok_replace cj ?P ?E us = Word x # Sep a' # Word y # rest"
          and mx: "token_matches ci (Word X') (Word x)" and my: "token_matches ci (Word Y') (Word y)"
          unfolding tok_match3 by blast
        from o have t: "t = Word x" and o1: "tok_replace cj ?P ?E us = Sep a' # Word y # rest" by simp_all
        from tok_replace_starts_Sep [OF o1] obtain vs where
          us: "us = Sep a' # vs" and o2: "Word y # rest = tok_replace cj ?P ?E vs" by blast
        from tok_replace_starts_Word [OF o2 [symmetric]] my h1
        obtain ws where vs: "vs = Word y # ws" by auto
        have "tok_match ci ?Q ts" unfolding Cons t us vs using mx my by simp
        moreover have "\<not> tok_match cj ?P ts" using False Cons by simp
        ultimately show ?thesis by (intro exI [of _ "[]"] exI [of _ ts]) simp
      qed
    qed
  qed
qed

lemma tok_match_occurs: "tok_match ci (p # ps) S \<Longrightarrow> tok_occurs ci (p # ps) (pre @ S)"
proof (induction pre)
  case Nil then show ?case by (cases S) simp_all
next
  case (Cons a pre) then show ?case by simp
qed

lemma replaced_has_no_own_match:
  assumes "\<not> token_matches ci (Word Y) (Word h)"
    and "last (Word h # r) = Word l" "\<not> token_matches ci (Word X) (Word l)"
    and "\<not> tok_occurs ci [Word X, Sep a, Word Y] (Word h # r)"
  shows "\<not> tok_occurs ci [Word X, Sep a, Word Y] (tok_replace ci [Word X, Sep a, Word Y] (Word h # r) ts)"
  using occurs_in_replaced [OF assms, of ci X a Y ts] by blast

lemma replaced_has_no_new_match:
  assumes "\<not> token_matches ci (Word Y') (Word h)"
    and "last (Word h # r) = Word l" "\<not> token_matches ci (Word X') (Word l)"
    and "\<not> tok_occurs ci [Word X', Sep a', Word Y'] (Word h # r)"
    and "\<not> tok_occurs ci [Word X', Sep a', Word Y'] ts"
  shows "\<not> tok_occurs ci [Word X', Sep a', Word Y'] (tok_replace cj [Word X, Sep a, Word Y] (Word h # r) ts)"
  using occurs_in_replaced [OF assms(1-4), of cj X a Y ts] assms(5) tok_match_occurs by blast


lemma normal_tl: "normal (t # ts) \<Longrightarrow> normal ts"
  by (cases t; cases ts rule: normal.cases) auto

lemma normal_after_Word: "normal (Word w # ts) \<Longrightarrow> ts = [] \<or> (\<exists>c us. ts = Sep c # us)"
  by (cases ts rule: normal.cases) simp_all

lemma normal_Word_Sep: "normal (Word w # ts) \<Longrightarrow> normal (Sep c # us) \<Longrightarrow> normal (Word w # Sep c # us)"
  by (cases ts rule: normal.cases) simp_all

lemma normal_append_after_Word:
  assumes "normal A" and "last A = Word l" and "A \<noteq> []" and "normal B"
    and "B = [] \<or> (\<exists>c us. B = Sep c # us)"
  shows "normal (A @ B)"
  using assms
proof (induction A rule: normal.induct)
  case (2 c ts)
  from 2(3) have "ts \<noteq> []" by (cases ts) auto
  with 2 show ?case by simp
next
  case (3 w)
  then show ?case by (cases B rule: normal.cases) auto
qed auto

lemma normal_tok_replace:
  assumes E: "normal (Word h # r)" "last (Word h # r) = Word l"
  shows "normal ts \<Longrightarrow> normal (tok_replace cj [Word X, Sep a, Word Y] (Word h # r) ts)"
proof (induction ts rule: length_induct)
  case (1 ts)
  let ?P = "[Word X, Sep a, Word Y]" and ?E = "Word h # r"
  show ?case
  proof (cases ts)
    case Nil then show ?thesis by simp
  next
    case (Cons t us)
    show ?thesis
    proof (cases "tok_match cj ?P (t # us)")
      case True
      then obtain x y rest where ts: "ts = Word x # Sep a # Word y # rest"
        unfolding tok_match3 Cons [symmetric] by blast
      with Cons have d: "drop 2 us = rest" by auto
      from "1.prems" ts have "normal (Word y # rest)" using normal_tl by blast
      then have nr: "normal rest" and sh: "rest = [] \<or> (\<exists>c vs. rest = Sep c # vs)"
        using normal_tl normal_after_Word by blast+
      have "length rest < length ts" using ts by simp
      with nr "1.IH" have n: "normal (tok_replace cj ?P ?E rest)" by blast
      from sh have "tok_replace cj ?P ?E rest = [] \<or> (\<exists>c vs. tok_replace cj ?P ?E rest = Sep c # vs)"
        by auto
      with E n have "normal (?E @ tok_replace cj ?P ?E rest)"
        by (intro normal_append_after_Word [of ?E l]) simp_all
      then show ?thesis unfolding Cons tok_replace_match [OF True] d .
    next
      case False
      have out: "tok_replace cj ?P ?E ts = t # tok_replace cj ?P ?E us"
        unfolding Cons by (rule tok_replace_no_match [OF False])
      have "length us < length ts" using Cons by simp
      moreover from "1.prems" Cons have nu: "normal us" using normal_tl by blast
      ultimately have n: "normal (tok_replace cj ?P ?E us)" using "1.IH" by blast
      show ?thesis
      proof (cases t)
        case (Sep c)
        with "1.prems" Cons n show ?thesis unfolding out by simp
      next
        case (Word w)
        with "1.prems" Cons have "us = [] \<or> (\<exists>c vs. us = Sep c # vs)"
          using normal_after_Word by blast
        then show ?thesis
        proof
          assume "us = []"
          with "1.prems" Cons Word show ?thesis unfolding out by simp
        next
          assume "\<exists>c vs. us = Sep c # vs"
          then obtain c vs where us: "us = Sep c # vs" by blast
          then have "tok_replace cj ?P ?E us = Sep c # tok_replace cj ?P ?E vs" by simp
          moreover from "1.prems" Cons Word have "normal (Word w # us)" by simp
          ultimately show ?thesis unfolding out Word using n normal_Word_Sep by metis
        qed
      qed
    qed
  qed
qed

lemma harmlessE:
  assumes "harmless ci pat rep"
  obtains X a Y h r l where "pat = [Word X, Sep a, Word Y]" "rep = Word h # r"
    "last (Word h # r) = Word l" "\<not> token_matches ci (Word Y) (Word h)"
    "\<not> token_matches ci (Word X) (Word l)" "\<not> tok_occurs ci [Word X, Sep a, Word Y] (Word h # r)"
proof -
  from assms obtain X a Y h r where p: "pat = [Word X, Sep a, Word Y]" "rep = Word h # r"
    by (auto elim: harmless.elims(2))
  with assms have c: "\<not> token_matches ci (Word Y) (Word h)"
    "case last (Word h # r) of Word l \<Rightarrow> \<not> token_matches ci (Word X) (Word l) | Sep c \<Rightarrow> False"
    "\<not> tok_occurs ci [Word X, Sep a, Word Y] (Word h # r)"
    by simp_all
  from c(2) obtain l where "last (Word h # r) = Word l" "\<not> token_matches ci (Word X) (Word l)"
    by (cases "last (Word h # r)") auto
  with p c that show ?thesis by blast
qed

lemma replace_words_clears:
  assumes "harmless ci (tokens k) (tokens e)"
  shows "\<not> contains_word ci k (replace_words ci k e s)"
proof -
  from assms obtain X a Y h r l where s: "tokens k = [Word X, Sep a, Word Y]" "tokens e = Word h # r"
    and l: "last (Word h # r) = Word l" and c: "\<not> token_matches ci (Word Y) (Word h)"
    "\<not> token_matches ci (Word X) (Word l)" "\<not> tok_occurs ci [Word X, Sep a, Word Y] (Word h # r)"
    by (rule harmlessE)
  have "normal (Word h # r)" using normal_tokens [of e] s by simp
  then have "normal (tok_replace ci [Word X, Sep a, Word Y] (Word h # r) (tokens s))"
    using l normal_tokens by (rule normal_tok_replace)
  then have "tokens (replace_words ci k e s) = tok_replace ci [Word X, Sep a, Word Y] (Word h # r) (tokens s)"
    unfolding replace_words_def s by (rule tokens_untokenize)
  then show ?thesis
    unfolding contains_word_def s using replaced_has_no_own_match [OF c(1) l c(2,3)] by simp
qed

lemma replace_words_keeps_clear:
  assumes "harmless ci (tokens k) (tokens e')" and "harmless cj (tokens k') (tokens e')"
    and "\<not> contains_word ci k s"
  shows "\<not> contains_word ci k (replace_words cj k' e' s)"
proof -
  from assms(1) obtain X a Y h r l where s: "tokens k = [Word X, Sep a, Word Y]" "tokens e' = Word h # r"
    and l: "last (Word h # r) = Word l" and c: "\<not> token_matches ci (Word Y) (Word h)"
    "\<not> token_matches ci (Word X) (Word l)" "\<not> tok_occurs ci [Word X, Sep a, Word Y] (Word h # r)"
    by (rule harmlessE)
  from assms(2) obtain X' a' Y' where s': "tokens k' = [Word X', Sep a', Word Y']"
    by (rule harmlessE)
  have "normal (Word h # r)" using normal_tokens [of e'] s by simp
  then have "normal (tok_replace cj [Word X', Sep a', Word Y'] (Word h # r) (tokens s))"
    using l normal_tokens by (rule normal_tok_replace)
  then have "tokens (replace_words cj k' e' s) =
      tok_replace cj [Word X', Sep a', Word Y'] (Word h # r) (tokens s)"
    unfolding replace_words_def s s' by (rule tokens_untokenize)
  moreover from assms(3) have "\<not> tok_occurs ci [Word X, Sep a, Word Y] (tokens s)"
    unfolding contains_word_def s .
  ultimately show ?thesis
    unfolding contains_word_def s using replaced_has_no_new_match [OF c(1) l c(2,3)] by simp
qed

lemma replace_each_snoc:
  "replace_each (reps @ [(c, k, e)]) s = replace_words c k e (replace_each reps s)"
  by (simp add: replace_each_def)

lemma replace_each_clears:
  assumes "\<forall>(ci, k, e) \<in> set all. \<forall>(cj, k', e') \<in> set all. harmless ci (tokens k) (tokens e')"
  shows "set reps \<subseteq> set all \<Longrightarrow> \<forall>(ci, k, e) \<in> set reps. \<not> contains_word ci k (replace_each reps s)"
proof (induction reps rule: rev_induct)
  case Nil then show ?case by simp
next
  case (snoc x reps)
  obtain cj k' e' where x: "x = (cj, k', e')" by (cases x)
  from snoc.prems x have xin: "(cj, k', e') \<in> set all" and sub: "set reps \<subseteq> set all" by auto
  from assms xin have own: "harmless cj (tokens k') (tokens e')" by fastforce
  have "\<not> contains_word ci k (replace_each (reps @ [x]) s)" if "(ci, k, e) \<in> set (reps @ [x])" for ci k e
  proof (cases "(ci, k, e) \<in> set reps")
    case True
    with snoc.IH [OF sub] have "\<not> contains_word ci k (replace_each reps s)" by fastforce
    moreover from True sub assms xin have "harmless ci (tokens k) (tokens e')" by fastforce
    ultimately show ?thesis unfolding x replace_each_snoc using own
      by (intro replace_words_keeps_clear)
  next
    case False
    with that x have "ci = cj" "k = k'" by auto
    then show ?thesis unfolding x replace_each_snoc using own
      by (simp add: replace_words_clears)
  qed
  then show ?case by auto
qed

lemma tok_replace_absent: "\<not> tok_occurs ci pat ts \<Longrightarrow> tok_replace ci pat rep ts = ts"
  by (induction ts) simp_all

lemma replace_words_absent: "\<not> contains_word ci key s \<Longrightarrow> replace_words ci key rep s = s"
  by (simp add: contains_word_def replace_words_def tok_replace_absent untokenize_tokens)

subsection \<open>Runs of word characters and word boundaries agree\<close>

lemma is_word_to_lower [simp]: "is_word (to_lower c) = is_word c"
proof (cases "to_lower c = c")
  case True then show ?thesis by simp
next
  case False
  then have e: "to_lower c = char_of ((of_char c :: nat) + 32)"
    and c: "is_upper c \<or> (192 \<le> (of_char c :: nat) \<and> (of_char c :: nat) \<le> 222)"
    by (auto simp: to_lower_def Let_def split: if_splits)
  have "(of_char (to_lower c) :: nat) = (of_char c + 32) mod 256" unfolding e by (simp add: of_char_of)
  then have n: "(of_char (to_lower c) :: nat) = of_char c + 32" using c
    by (auto simp: is_upper_def Let_def)
  have "(of_char CHR ''_'' :: nat) = 95" by simp
  then have u: "c = CHR ''_'' \<longleftrightarrow> (of_char c :: nat) = 95" for c
    by (metis of_char_eq_iff)
  show ?thesis using c n
    by (auto simp: is_word_def is_alpha_def is_upper_def is_lower_def is_digit_def Let_def u)
qed


lemma to_lower_eq_word: "to_lower c = to_lower k \<Longrightarrow> is_word c = is_word k"
  by (metis is_word_to_lower)

lemma to_lower_eq_plain:
  assumes "\<not> is_word k" and "(of_char k :: nat) < 128" and "to_lower c = to_lower k"
  shows "c = k"
proof -
  from assms(1,2) have k: "to_lower k = k"
    by (simp add: to_lower_def is_word_def is_alpha_def Let_def)
  show ?thesis
  proof (cases "to_lower c = c")
    case True with assms(3) k show ?thesis by simp
  next
    case False
    then have e: "to_lower c = char_of ((of_char c :: nat) + 32)"
      and c: "is_upper c \<or> (192 \<le> (of_char c :: nat) \<and> (of_char c :: nat) \<le> 222)"
      by (auto simp: to_lower_def Let_def split: if_splits)
    have "(of_char (to_lower c) :: nat) = (of_char c + 32) mod 256" unfolding e by (simp add: of_char_of)
    with assms(3) k have "(of_char k :: nat) = (of_char c + 32) mod 256" by simp
    then have "is_lower k \<or> 128 \<le> (of_char k :: nat)"
      using c by (auto simp: is_upper_def is_lower_def Let_def)
    with assms(1,2) show ?thesis by (simp add: is_word_def is_alpha_def)
  qed
qed

lemma tokens_Nil_iff [simp]: "tokens s = [] \<longleftrightarrow> s = []"
  by (cases s) (auto split: list.splits token.splits)

lemma tokens_not_word: "\<not> is_word c \<Longrightarrow> tokens (c # cs) = Sep c # tokens cs"
  by simp

lemma tokens_append:
  "u = [] \<or> v = [] \<or> \<not> is_word (last u) \<or> \<not> is_word (hd v) \<Longrightarrow> tokens (u @ v) = tokens u @ tokens v"
proof (induction u)
  case Nil then show ?case by simp
next
  case (Cons c u)
  show ?case
  proof (cases "u = []")
    case True
    show ?thesis
    proof (cases "is_word c")
      case False with True show ?thesis by simp
    next
      case w: True
      with Cons.prems True have "v = [] \<or> \<not> is_word (hd v)" by auto
      then show ?thesis using True w by (cases v) auto
    qed
  next
    case False
    with Cons have IH: "tokens (u @ v) = tokens u @ tokens v" by auto
    from False obtain t ts where "tokens u = t # ts" by (cases "tokens u") auto
    with IH show ?thesis by (cases t) auto
  qed
qed

lemma untokenize_append: "untokenize (A @ B) = untokenize A @ untokenize B"
  by (induction A rule: untokenize.induct) auto

lemma tokens_same_text:
  assumes "same_text ci m key" and "list_all (\<lambda>c. (of_char c :: nat) < 128) key"
  shows "list_all2 (\<lambda>p t. token_matches ci p t) (tokens key) (tokens m)"
proof (cases ci)
  case False
  have "list_all2 (\<lambda>p t. token_matches False p t) ts ts" for ts
  proof (induction ts)
    case Nil show ?case by simp
  next
    case (Cons t ts) then show ?case by (cases t) auto
  qed
  then show ?thesis using assms(1) False by (simp add: same_text_def)
next
  case True
  have "toLowerCase m = toLowerCase key \<Longrightarrow> list_all (\<lambda>c. (of_char c :: nat) < 128) key \<Longrightarrow>
        list_all2 (\<lambda>p t. token_matches True p t) (tokens key) (tokens m)" for m key
  proof (induction key arbitrary: m)
    case Nil then show ?case by (simp add: toLowerCase_def)
  next
    case (Cons k ks)
    then obtain c cs where m: "m = c # cs" and c: "to_lower c = to_lower k"
      and cs: "toLowerCase cs = toLowerCase ks"
      by (cases m) (auto simp: toLowerCase_def)
    from Cons.prems(2) have a: "(of_char k :: nat) < 128" "list_all (\<lambda>c. (of_char c :: nat) < 128) ks"
      by simp_all
    from Cons.IH [OF cs a(2)]
    have IH: "list_all2 (\<lambda>p t. token_matches True p t) (tokens ks) (tokens cs)" .
    from c have w: "is_word c = is_word k" by (rule to_lower_eq_word)
    show ?case
    proof (cases "is_word k")
      case False
      from False a(1) c have "c = k" by (rule to_lower_eq_plain)
      with False IH m show ?thesis by simp
    next
      case k: True
      show ?thesis
      proof (cases "tokens ks")
        case Nil
        with IH have "tokens cs = []" by simp
        with Nil k w c m show ?thesis by (simp add: toLowerCase_def)
      next
        case (Cons p ps)
        with IH obtain t ts where t: "tokens cs = t # ts" "token_matches True p t"
          "list_all2 (\<lambda>p t. token_matches True p t) ps ts"
          by (cases "tokens cs") auto
        with Cons k w c m show ?thesis
          by (cases p; cases t) (auto simp: toLowerCase_def)
      qed
    qed
  qed
  then show ?thesis using assms True by (simp add: same_text_def)
qed

lemma tok_match_list_all2:
  "list_all2 (\<lambda>p t. token_matches ci p t) P A \<Longrightarrow> tok_match ci P (A @ X)"
  by (induction P A rule: list_all2_induct) auto

lemma tok_match_split:
  "tok_match ci P T \<Longrightarrow> \<exists>A X. T = A @ X \<and> list_all2 (\<lambda>p t. token_matches ci p t) P A"
proof (induction ci P T rule: tok_match.induct)
  case (1 ci ts)
  then show ?case by simp
next
  case (2 ci p ps)
  then show ?case by simp
next
  case (3 ci p ps t ts)
  then obtain A X where "ts = A @ X" "list_all2 (\<lambda>p t. token_matches ci p t) ps A" by auto
  with 3 have "t # ts = (t # A) @ X \<and> list_all2 (\<lambda>p t. token_matches ci p t) (p # ps) (t # A)" by simp
  then show ?case by blast
qed

lemma untokenize_same_text:
  "list_all2 (\<lambda>p t. token_matches ci p t) P A \<Longrightarrow> same_text ci (untokenize A) (untokenize P)"
proof (induction P A rule: list_all2_induct)
  case Nil show ?case by (simp add: same_text_def)
next
  case (Cons p ps t ts)
  then show ?case
    by (cases p; cases t) (auto simp: same_text_def toLowerCase_def split: if_splits)
qed

lemma same_text_length: "same_text ci m key \<Longrightarrow> length m = length key"
  by (auto simp: same_text_def toLowerCase_def split: if_splits dest: map_eq_imp_length_eq)


lemma bounded_match_inside_run:
  "is_word p \<Longrightarrow> is_word c \<Longrightarrow> \<not> bounded_match ci key (Some p) (c # cs)"
  by (simp add: bounded_match_def boundary_def word_at_def hd_option_def Let_def)

lemma replace_bounded_run:
  "is_word p \<Longrightarrow> list_all is_word u \<Longrightarrow>
     replace_bounded ci key rep (Some p) (u @ rest) = u @ replace_bounded ci key rep (Some (last (p # u))) rest"
proof (induction u arbitrary: p)
  case Nil then show ?case by simp
next
  case (Cons c u)
  then have "is_word c" "list_all is_word u" by simp_all
  with Cons.prems(1) have "\<not> bounded_match ci key (Some p) (c # u @ rest)"
    by (simp add: bounded_match_inside_run)
  then have "replace_bounded ci key rep (Some p) ((c # u) @ rest) =
      c # replace_bounded ci key rep (Some c) (u @ rest)" by simp
  also have "\<dots> = c # u @ replace_bounded ci key rep (Some (last (c # u))) rest"
    using Cons.IH [OF \<open>is_word c\<close> \<open>list_all is_word u\<close>] by simp
  finally show ?case by simp
qed

lemma bounded_match_not_word:
  assumes "word_ended key" and "\<not> is_word c"
  shows "\<not> bounded_match ci key prev (c # cs)"
proof
  assume "bounded_match ci key prev (c # cs)"
  then have st: "same_text ci (take (length key) (c # cs)) key"
    by (simp add: bounded_match_def Let_def)
  from assms(1) obtain k ks where key: "key = k # ks" and k: "is_word k"
    by (cases key) (auto simp: word_ended_def)
  from st key have "to_lower c = to_lower k \<or> c = k"
    by (auto simp: same_text_def toLowerCase_def split: if_splits)
  with k assms(2) show False using to_lower_eq_word by blast
qed

lemma tokens_word_ended:
  assumes "word_ended key"
  shows "\<exists>w ts. tokens key = Word w # ts" and "\<exists>w. last (tokens key) = Word w"
proof -
  from assms obtain k ks where key: "key = k # ks" and k: "is_word k"
    by (cases key) (auto simp: word_ended_def)
  then show "\<exists>w ts. tokens key = Word w # ts" by (auto split: list.splits token.splits)
  from assms have "key \<noteq> []" "is_word (last key)" by (simp_all add: word_ended_def)
  then show "\<exists>w. last (tokens key) = Word w"
  proof (induction key)
    case Nil then show ?case by simp
  next
    case (Cons c cs)
    show ?case
    proof (cases "cs = []")
      case True with Cons.prems show ?thesis by simp
    next
      case False
      with Cons have "\<exists>w. last (tokens cs) = Word w" by simp
      moreover from False have "tokens cs \<noteq> []" by simp
      ultimately show ?thesis by (auto split: list.splits token.splits)
    qed
  qed
qed

lemma normal_append_left: "normal (A @ X) \<Longrightarrow> last A = Word w \<Longrightarrow> A \<noteq> [] \<Longrightarrow>
    X = [] \<or> (\<exists>c us. X = Sep c # us \<and> \<not> is_word c)"
proof (induction A rule: normal.induct)
  case (3 v)
  then show ?case by (cases X rule: normal.cases) auto
next
  case (2 c ts)
  from 2(3) have "ts \<noteq> []" by (cases ts) auto
  with 2 show ?case by simp
qed auto

lemma untokenize_starts:
  "X = [] \<or> (\<exists>c us. X = Sep c # us \<and> \<not> is_word c) \<Longrightarrow>
     untokenize X = [] \<or> \<not> is_word (hd (untokenize X))"
  by auto

lemma last_untokenize_Word:
  "normal A \<Longrightarrow> last A = Word w \<Longrightarrow> A \<noteq> [] \<Longrightarrow> untokenize A \<noteq> [] \<and> is_word (last (untokenize A))"
proof (induction A rule: normal.induct)
  case (2 c ts)
  from 2(3) have "ts \<noteq> []" by (cases ts) auto
  with 2 show ?case by simp
next
  case (3 v)
  then show ?case by (auto simp: list_all_iff)
qed auto


lemma same_text_last:
  assumes "same_text ci m key" and "key \<noteq> []"
  shows "m \<noteq> [] \<and> is_word (last m) = is_word (last key)"
proof -
  from assms have ne: "m \<noteq> []" using same_text_length by fastforce
  show ?thesis
  proof (cases ci)
    case False with assms ne show ?thesis by (simp add: same_text_def)
  next
    case True
    with assms have "map to_lower m = map to_lower key" by (simp add: same_text_def toLowerCase_def)
    then have "last (map to_lower m) = last (map to_lower key)" by simp
    with ne assms(2) have "to_lower (last m) = to_lower (last key)" by (simp add: last_map)
    with ne show ?thesis using to_lower_eq_word by blast
  qed
qed

lemma list_all2_last_Word:
  "list_all2 (\<lambda>p t. token_matches ci p t) P A \<Longrightarrow> P \<noteq> [] \<Longrightarrow> last P = Word w \<Longrightarrow>
     A \<noteq> [] \<and> (\<exists>v. last A = Word v)"
proof (induction P A rule: list_all2_induct)
  case Nil then show ?case by simp
next
  case (Cons p ps t ts)
  show ?case
  proof (cases "ps = []")
    case True
    with Cons have "p = Word w" "ts = []" by simp_all
    with Cons.hyps(1) show ?thesis by (cases t) simp_all
  next
    case False
    with Cons have "ts \<noteq> [] \<and> (\<exists>v. last ts = Word v)" by simp
    then show ?thesis by simp
  qed
qed

lemma word_at_simps [simp]: "word_at None = False" "word_at (Some x) = is_word x"
  by (simp_all add: word_at_def)

lemma hd_option_word [simp]: "word_at (hd_option s) \<longleftrightarrow> s \<noteq> [] \<and> is_word (hd s)"
  by (cases s) (simp_all add: word_at_def hd_option_def)

lemma tok_match_bounded:
  assumes we: "word_ended key" and pv: "\<not> word_at prev" and c: "is_word c"
    and tm: "tok_match ci (tokens key) (tokens (c # cs))"
  shows "bounded_match ci key prev (c # cs)"
proof -
  let ?s = "c # cs"
  from we have kne: "key \<noteq> []" and lk: "is_word (last key)" by (simp_all add: word_ended_def)
  from tm obtain A X where AX: "tokens ?s = A @ X"
    and la: "list_all2 (\<lambda>p t. token_matches ci p t) (tokens key) A"
    using tok_match_split by blast
  from tokens_word_ended(2) [OF we] obtain w where "last (tokens key) = Word w" by blast
  with la kne have Ane: "A \<noteq> []" and "\<exists>v. last A = Word v"
    using list_all2_last_Word [of ci "tokens key" A w] by simp_all
  then obtain v where lA: "last A = Word v" by blast
  have s: "?s = untokenize A @ untokenize X"
    using untokenize_tokens [of ?s] AX by (simp add: untokenize_append)
  have st: "same_text ci (untokenize A) key"
    using untokenize_same_text [OF la] by (simp add: untokenize_tokens)
  then have len: "length (untokenize A) = length key" by (rule same_text_length)
  with s have tk: "take (length key) ?s = untokenize A" and dr: "drop (length key) ?s = untokenize X"
    by (metis append_eq_conv_conj)+
  from same_text_last [OF st kne] lk have m: "untokenize A \<noteq> []" "is_word (last (untokenize A))"
    by simp_all
  have "normal (A @ X)" using normal_tokens [of ?s] AX by simp
  from normal_append_left [OF this lA Ane] have "untokenize X = [] \<or> \<not> is_word (hd (untokenize X))"
    by (rule untokenize_starts)
  then have after: "\<not> word_at (hd_option (untokenize X))" by auto
  have "length key \<le> length ?s" using len s by (metis length_append le_add1)
  moreover have "boundary prev (hd_option ?s)" using pv c by (simp add: boundary_def)
  moreover have "boundary (Some (last (untokenize A))) (hd_option (untokenize X))"
    using m(2) after by (simp add: boundary_def)
  ultimately show ?thesis
    unfolding bounded_match_def Let_def tk dr using st m(1) by simp
qed

lemma replace_bounded_tokens:
  assumes we: "word_ended key"
  shows "\<not> word_at prev \<or> s = [] \<or> \<not> is_word (hd s) \<Longrightarrow>
     replace_bounded ci key rep prev s = untokenize (tok_replace ci (tokens key) (tokens rep) (tokens s))"
proof (induction s arbitrary: prev rule: length_induct)
  case (1 s)
  let ?P = "tokens key" and ?E = "tokens rep"
  from we have kne: "key \<noteq> []" and lk: "is_word (last key)" by (simp_all add: word_ended_def)
  from tokens_word_ended(1) [OF we] obtain pw pts where P: "?P = Word pw # pts" by blast
  show ?case
  proof (cases s)
    case Nil then show ?thesis by simp
  next
    case (Cons c cs)
    show ?thesis
    proof (cases "is_word c")
      case False
      from bounded_match_not_word [OF we False]
      have "replace_bounded ci key rep prev s = c # replace_bounded ci key rep (Some c) cs"
        unfolding Cons by simp
      also have "replace_bounded ci key rep (Some c) cs = untokenize (tok_replace ci ?P ?E (tokens cs))"
        using "1.IH" Cons False by (simp add: word_at_def)
      also have "c # untokenize (tok_replace ci ?P ?E (tokens cs)) =
          untokenize (tok_replace ci ?P ?E (tokens s))"
        unfolding Cons P using False by simp
      finally show ?thesis .
    next
      case c: True
      with "1.prems" Cons have pv: "\<not> word_at prev" by simp
      show ?thesis
      proof (cases "bounded_match ci key prev s")
        case True
        let ?m = "take (length key) s" and ?r = "drop (length key) s"
        from True have len: "length key \<le> length s" and st: "same_text ci ?m key"
          and b: "boundary (if ?m = [] then prev else Some (last ?m)) (hd_option ?r)"
          by (simp_all add: bounded_match_def Let_def)
        from same_text_last [OF st kne] lk have m: "?m \<noteq> []" "is_word (last ?m)" by simp_all
        with b have r: "?r = [] \<or> \<not> is_word (hd ?r)" by (auto simp: boundary_def)
        then have "tokens (?m @ ?r) = tokens ?m @ tokens ?r" by (intro tokens_append) blast
        then have ts: "tokens s = tokens ?m @ tokens ?r" by simp
        have la: "list_all2 (\<lambda>p t. token_matches ci p t) ?P (tokens ?m)"
          using st we by (intro tokens_same_text) (simp_all add: word_ended_def)
        then have ll: "length (tokens ?m) = length ?P" by (simp add: list_all2_lengthD)
        have tm: "tok_match ci ?P (tokens s)" unfolding ts using la by (rule tok_match_list_all2)
        have "tokens s \<noteq> []" using Cons by (simp only: tokens_Nil_iff) simp
        then obtain t tl where tt: "tokens s = t # tl" by (cases "tokens s") auto
        have "drop (length ?P - 1) tl = drop (length ?P) (tokens s)"
          unfolding tt P by simp
        also have "\<dots> = tokens ?r" unfolding ts using ll by simp
        finally have d: "drop (length ?P - 1) tl = tokens ?r" .
        have rhs: "untokenize (tok_replace ci ?P ?E (tokens s)) =
            rep @ untokenize (tok_replace ci ?P ?E (tokens ?r))"
          using tm d unfolding tt by (simp add: untokenize_append untokenize_tokens)
        from kne have "c # take (length key - 1) cs = ?m" "drop (length key - 1) cs = ?r"
          unfolding Cons by (cases key; simp)+
        then have lhs: "replace_bounded ci key rep prev s =
            rep @ replace_bounded ci key rep (Some (last ?m)) ?r"
          using True unfolding Cons by simp
        from kne have "length ?r < length s" using Cons by (cases key) simp_all
        with "1.IH" r have "replace_bounded ci key rep (Some (last ?m)) ?r =
            untokenize (tok_replace ci ?P ?E (tokens ?r))" by blast
        with lhs rhs show ?thesis by simp
      next
        case False
        let ?u = "takeWhile is_word cs" and ?r = "dropWhile is_word cs"
        have ntm: "\<not> tok_match ci ?P (tokens s)"
          using False tok_match_bounded [OF we pv c] unfolding Cons by blast
        have u: "list_all is_word ?u" by (simp add: list_all_iff) (meson set_takeWhileD)
        have r: "?r = [] \<or> \<not> is_word (hd ?r)" using hd_dropWhile [of is_word cs] by blast
        have "replace_bounded ci key rep prev s = c # replace_bounded ci key rep (Some c) (?u @ ?r)"
          using False unfolding Cons by simp
        also have "\<dots> = c # ?u @ replace_bounded ci key rep (Some (last (c # ?u))) ?r"
          by (simp only: replace_bounded_run [OF c u])
        also have "replace_bounded ci key rep (Some (last (c # ?u))) ?r =
            untokenize (tok_replace ci ?P ?E (tokens ?r))"
        proof -
          have "length ?r < length s" unfolding Cons by (simp add: length_dropWhile_le le_imp_less_Suc)
          with "1.IH" r show ?thesis by blast
        qed
        finally have lhs: "replace_bounded ci key rep prev s =
            (c # ?u) @ untokenize (tok_replace ci ?P ?E (tokens ?r))" by simp
        have "tokens ((c # ?u) @ ?r) = tokens (c # ?u) @ tokens ?r"
          using r by (intro tokens_append) blast
        moreover have "tokens (c # ?u) = [Word (c # ?u)]" using c u by (intro tokens_word) simp_all
        ultimately have ts: "tokens s = Word (c # ?u) # tokens ?r" unfolding Cons by simp
        from ntm have "untokenize (tok_replace ci ?P ?E (tokens s)) =
            (c # ?u) @ untokenize (tok_replace ci ?P ?E (tokens ?r))"
          unfolding ts by simp
        with lhs show ?thesis by simp
      qed
    qed
  qed
qed

theorem replace_bounded_words:
  "word_ended key \<Longrightarrow> replace_bounded ci key rep None s = replace_words ci key rep s"
  unfolding replace_words_def by (rule replace_bounded_tokens) (simp_all add: word_at_def)

lemma replace_each_bounded:
  "list_all (\<lambda>(ci, key, rep). word_ended key) reps \<Longrightarrow>
     replace_each reps s = foldl (\<lambda>result (ci, key, rep). replace_bounded ci key rep None result) s reps"
  unfolding replace_each_def
  by (induction reps arbitrary: s) (auto simp: replace_bounded_words)

lemma dictionary_keys_word_ended:
  "list_all (\<lambda>(key, rep). word_ended key) storyReplacements"
  "list_all (\<lambda>(key, rep). word_ended key) professionalReplacements"
  "list_all (\<lambda>(ci, key, rep). word_ended key) contractions"
  "list_all (\<lambda>(ci, key, rep). word_ended key) expansions"
  by code_simp+

lemma addHumanTouches_bounded:
  "addHumanTouches s tone =
     (let result = (if tone = ''casual'' \<or> tone = ''story''
                    then foldl (\<lambda>result (ci, key, rep). replace_bounded ci key rep None result) s contractions
                    else s)
      in if tone = ''professional''
         then foldl (\<lambda>result (ci, key, rep). replace_bounded ci key rep None result) result expansions
         else result)"
  unfolding addHumanTouches_def
  by (simp only: replace_each_bounded [OF dictionary_keys_word_ended(3)]
        replace_each_bounded [OF dictionary_keys_word_ended(4)])

lemma foldl_replace_bounded:
  "list_all (\<lambda>(key, rep). word_ended key) reps \<Longrightarrow>
     foldl (\<lambda>newSentence (key, rep). replace_words True key rep newSentence) s reps =
     foldl (\<lambda>newSentence (key, rep). replace_bounded True key rep None newSentence) s reps"
  by (induction reps arbitrary: s) (auto simp: replace_bounded_words)

lemma applyStoryTone_bounded:
  "applyStoryTone sentences =
     map (\<lambda>sentence. foldl (\<lambda>newSentence (original, story). replace_bounded True original story None newSentence)
                        sentence storyReplacements) sentences"
  unfolding applyStoryTone_def
  by (simp only: foldl_replace_bounded [OF dictionary_keys_word_ended(1)])

lemma applyProfessionalTone_bounded:
  "applyProfessionalTone sentences =
     map (\<lambda>sentence. foldl (\<lambda>newSentence (casual, professional). replace_bounded True casual professional None newSentence)
                        sentence professionalReplacements) sentences"
  unfolding applyProfessionalTone_def
  by (simp only: foldl_replace_bounded [OF dictionary_keys_word_ended(2)])

subsection \<open>The chain of replacements is one pass\<close>

lemma bounded_match_tokens:
  assumes we: "word_ended key" and bm: "bounded_match ci key prev (c # cs)"
  shows "tok_match ci (tokens key) (tokens (c # cs))"
    and "drop (length (tokens key) - 1) (tl (tokens (c # cs))) = tokens (drop (length key - 1) cs)"
    and "drop (length key - 1) cs = [] \<or> \<not> is_word (hd (drop (length key - 1) cs))"
    and "is_word (last (c # take (length key - 1) cs))"
proof -
  let ?s = "c # cs"
  let ?P = "tokens key"
  let ?m = "take (length key) ?s" and ?r = "drop (length key) ?s"
  from we have kne: "key \<noteq> []" and lk: "is_word (last key)" by (simp_all add: word_ended_def)
  from tokens_word_ended(1) [OF we] obtain pw pts where P: "?P = Word pw # pts" by blast
  from bm have len: "length key \<le> length ?s" and st: "same_text ci ?m key"
    and b: "boundary (if ?m = [] then prev else Some (last ?m)) (hd_option ?r)"
    by (simp_all add: bounded_match_def Let_def)
  from same_text_last [OF st kne] lk have m: "?m \<noteq> []" "is_word (last ?m)" by simp_all
  with b have r: "?r = [] \<or> \<not> is_word (hd ?r)" by (auto simp: boundary_def)
  then have "tokens (?m @ ?r) = tokens ?m @ tokens ?r" by (intro tokens_append) blast
  then have ts: "tokens ?s = tokens ?m @ tokens ?r" by simp
  have la: "list_all2 (\<lambda>p t. token_matches ci p t) ?P (tokens ?m)"
    using st we by (intro tokens_same_text) (simp_all add: word_ended_def)
  then have ll: "length (tokens ?m) = length ?P" by (simp add: list_all2_lengthD)
  show "tok_match ci ?P (tokens ?s)" unfolding ts using la by (rule tok_match_list_all2)
  have "tokens ?s \<noteq> []" by (simp only: tokens_Nil_iff) simp
  then obtain t us where tt: "tokens ?s = t # us" by (cases "tokens ?s") auto
  have "drop (length ?P - 1) us = drop (length ?P) (tokens ?s)" unfolding tt P by simp
  also have "\<dots> = tokens ?r" unfolding ts using ll by simp
  finally have d: "drop (length ?P - 1) us = tokens ?r" .
  from kne have e: "c # take (length key - 1) cs = ?m" "drop (length key - 1) cs = ?r"
    by (cases key; simp)+
  show "drop (length ?P - 1) (tl (tokens ?s)) = tokens (drop (length key - 1) cs)"
    using d unfolding tt e by simp
  show "drop (length key - 1) cs = [] \<or> \<not> is_word (hd (drop (length key - 1) cs))"
    using r unfolding e .
  show "is_word (last (c # take (length key - 1) cs))" using m(2) unfolding e .
qed

lemma find_cong_set: "(\<And>x. x \<in> set xs \<Longrightarrow> P x = Q x) \<Longrightarrow> find P xs = find Q xs"
  by (induction xs) auto

lemma find_Some_set: "find P xs = Some x \<Longrightarrow> x \<in> set xs \<and> P x"
  by (induction xs) (auto split: if_splits)

lemma find_None_set: "(\<And>x. x \<in> set xs \<Longrightarrow> \<not> P x) \<Longrightarrow> find P xs = None"
  by (induction xs) auto

lemma expand_from_run:
  "is_word p \<Longrightarrow> list_all is_word u \<Longrightarrow>
     expand_from reps (Some p) (u @ rest) = u @ expand_from reps (Some (last (p # u))) rest"
proof (induction u arbitrary: p)
  case Nil then show ?case by simp
next
  case (Cons c u)
  then have c: "is_word c" and u: "list_all is_word u" by simp_all
  have "find (\<lambda>(ci, key, full). bounded_match ci key (Some p) (c # u @ rest)) reps = None"
    using bounded_match_inside_run [OF Cons.prems(1) c] by (intro find_None_set) auto
  then have "expand_from reps (Some p) ((c # u) @ rest) = c # expand_from reps (Some c) (u @ rest)"
    by simp
  also have "\<dots> = c # u @ expand_from reps (Some (last (c # u))) rest"
    using Cons.IH [OF c u] by simp
  finally show ?case by simp
qed

lemma expand_from_tokens:
  assumes we: "\<forall>(ci, key, full) \<in> set reps. word_ended key"
  shows "\<not> word_at prev \<or> s = [] \<or> \<not> is_word (hd s) \<Longrightarrow>
     expand_from reps prev s = untokenize (tok_expand reps (tokens s))"
proof (induction s arbitrary: prev rule: length_induct)
  case (1 s)
  show ?case
  proof (cases s)
    case Nil then show ?thesis by simp
  next
    case (Cons c cs)
    let ?F = "\<lambda>(ci, key, full). bounded_match ci key prev (c # cs)"
    let ?G = "\<lambda>(ci :: bool, key, full :: string). tok_match ci (tokens key) (tokens (c # cs))"
    show ?thesis
    proof (cases "is_word c")
      case False
      have "find ?F reps = None"
        using we bounded_match_not_word [OF _ False] by (intro find_None_set) fastforce
      then have l: "expand_from reps prev s = c # expand_from reps (Some c) cs"
        unfolding Cons by simp
      have "\<not> tok_match ci (tokens key) (Sep c # ts)" if "word_ended key" for ci key ts
        using tokens_word_ended(1) [OF that] by auto
      then have "find (\<lambda>(ci :: bool, key, full :: string). tok_match ci (tokens key) (Sep c # tokens cs)) reps = None"
        using we by (intro find_None_set) fastforce
      then have r: "tok_expand reps (tokens s) = Sep c # tok_expand reps (tokens cs)"
        unfolding Cons using False by simp
      have "expand_from reps (Some c) cs = untokenize (tok_expand reps (tokens cs))"
        using "1.IH" Cons False by simp
      with l r show ?thesis by simp
    next
      case c: True
      with "1.prems" Cons have pv: "\<not> word_at prev" by simp
      have FG: "find ?F reps = find ?G reps"
      proof (rule find_cong_set)
        fix x assume x: "x \<in> set reps"
        obtain ci key full where xe: "x = (ci, key, full)" by (cases x)
        with we x have k: "word_ended key" by fastforce
        show "?F x = ?G x"
          unfolding xe prod.case
          using bounded_match_tokens(1) [OF k, of ci prev c cs] tok_match_bounded [OF k pv c, of ci cs]
          by blast
      qed
      have ne: "tokens (c # cs) \<noteq> []" by (simp only: tokens_Nil_iff) simp
      then obtain t us where tt: "tokens (c # cs) = t # us" by (cases "tokens (c # cs)") auto
      show ?thesis
      proof (cases "find ?F reps")
        case (Some x)
        obtain ci key full where xe: "x = (ci, key, full)" by (cases x)
        from find_Some_set [OF Some] have "x \<in> set reps" and bm: "?F x" by blast+
        with we xe have k: "word_ended key" and bm: "bounded_match ci key prev (c # cs)" by fastforce+
        let ?r = "drop (length key - 1) cs"
        from bounded_match_tokens(2-4) [OF k bm]
        have d: "drop (length (tokens key) - 1) us = tokens ?r"
          and r: "?r = [] \<or> \<not> is_word (hd ?r)" unfolding tt by simp_all
        have l: "expand_from reps prev s =
            full @ expand_from reps (Some (last (c # take (length key - 1) cs))) ?r"
          unfolding Cons using Some xe by simp
        have "find (\<lambda>(ci :: bool, key, full :: string). tok_match ci (tokens key) (t # us)) reps = Some (ci, key, full)"
          using Some FG xe unfolding tt by simp
        then have rr: "tok_expand reps (tokens s) = tokens full @ tok_expand reps (tokens ?r)"
          unfolding Cons tt using d by simp
        have "length ?r < length s" unfolding Cons by simp
        with "1.IH" r have "expand_from reps (Some (last (c # take (length key - 1) cs))) ?r =
            untokenize (tok_expand reps (tokens ?r))" by blast
        with l rr show ?thesis by (simp add: untokenize_append untokenize_tokens)
      next
        case None
        let ?u = "takeWhile is_word cs" and ?r = "dropWhile is_word cs"
        have u: "list_all is_word ?u" by (simp add: list_all_iff) (meson set_takeWhileD)
        have r: "?r = [] \<or> \<not> is_word (hd ?r)" using hd_dropWhile [of is_word cs] by blast
        have "expand_from reps prev s = c # expand_from reps (Some c) (?u @ ?r)"
          using None unfolding Cons by simp
        also have "\<dots> = c # ?u @ expand_from reps (Some (last (c # ?u))) ?r"
          by (simp only: expand_from_run [OF c u])
        also have "expand_from reps (Some (last (c # ?u))) ?r = untokenize (tok_expand reps (tokens ?r))"
        proof -
          have "length ?r < length s" unfolding Cons by (simp add: length_dropWhile_le le_imp_less_Suc)
          with "1.IH" r show ?thesis by blast
        qed
        finally have lhs: "expand_from reps prev s = (c # ?u) @ untokenize (tok_expand reps (tokens ?r))"
          by simp
        have "tokens ((c # ?u) @ ?r) = tokens (c # ?u) @ tokens ?r"
          using r by (intro tokens_append) blast
        moreover have "tokens (c # ?u) = [Word (c # ?u)]" using c u by (intro tokens_word) simp_all
        ultimately have ts: "tokens s = Word (c # ?u) # tokens ?r" unfolding Cons by simp
        have "find (\<lambda>(ci :: bool, key, full :: string). tok_match ci (tokens key) (Word (c # ?u) # tokens ?r)) reps = None"
          using None FG ts unfolding Cons by simp
        then have "tok_expand reps (tokens s) = Word (c # ?u) # tok_expand reps (tokens ?r)"
          unfolding ts by simp
        with lhs show ?thesis by simp
      qed
    qed
  qed
qed

lemma apartE:
  assumes "apart p q"
  obtains X a Y X' a' Y' where "p = [Word X, Sep a, Word Y]" "q = [Word X', Sep a', Word Y']"
    "toLowerCase Y \<noteq> toLowerCase X'"
  using assms by (auto elim: apart.elims(2))

lemma token_matches_lower: "token_matches ci (Word p) (Word x) \<Longrightarrow> toLowerCase x = toLowerCase p"
  by (cases ci) simp_all

lemma tok_expand_no_reps: "tok_expand [] ts = ts"
  by (induction ts) simp_all

lemma find_snoc:
  "find Q (R @ [x]) = (case find Q R of Some y \<Rightarrow> Some y | None \<Rightarrow> if Q x then Some x else None)"
  by (induction R) auto

lemma tok_expand_Some:
  "find (\<lambda>(ci, key, full). tok_match ci (tokens key) (t # ts)) reps = Some (ci, key, full) \<Longrightarrow>
     tok_expand reps (t # ts) = tokens full @ tok_expand reps (drop (length (tokens key) - 1) ts)"
  by simp

lemma tok_expand_None:
  "find (\<lambda>(ci, key, full). tok_match ci (tokens key) (t # ts)) reps = None \<Longrightarrow>
     tok_expand reps (t # ts) = t # tok_expand reps ts"
  by simp

lemma tok_expand_Sep:
  assumes "\<forall>(c1, k1, e1) \<in> set R. \<exists>X1 a1 Y1. tokens k1 = [Word X1, Sep a1, Word Y1]"
  shows "tok_expand R (Sep c # ts) = Sep c # tok_expand R ts"
proof (rule tok_expand_None, rule find_None_set)
  fix x assume "x \<in> set R"
  with assms obtain c1 k1 e1 X1 a1 Y1 where "x = (c1, k1, e1)" "tokens k1 = [Word X1, Sep a1, Word Y1]"
    by (cases x) fastforce
  then show "\<not> (case x of (ci, key, full) \<Rightarrow> tok_match ci (tokens key) (Sep c # ts))" by simp
qed

lemma skip_replacement:
  assumes "last (e # E) = Word l" and "\<not> token_matches cj (Word X) (Word l)"
    and "\<not> tok_occurs cj [Word X, Sep a, Word Y] (e # E)"
  shows "tok_replace cj [Word X, Sep a, Word Y] rep ((e # E) @ Z) =
         (e # E) @ tok_replace cj [Word X, Sep a, Word Y] rep Z"
  using assms
proof (induction E arbitrary: e)
  case Nil
  then have "\<not> tok_match cj [Word X, Sep a, Word Y] (e # Z)" by simp
  from tok_replace_no_match [OF this] show ?case by simp
next
  case (Cons e2 E2)
  from Cons.prems(3) have no: "\<not> tok_match cj [Word X, Sep a, Word Y] (e # e2 # E2)"
    and no2: "\<not> tok_occurs cj [Word X, Sep a, Word Y] (e2 # E2)" by simp_all
  have nm: "\<not> tok_match cj [Word X, Sep a, Word Y] (e # (e2 # E2) @ Z)"
  proof (cases E2)
    case Nil
    with Cons.prems(1) have "e2 = Word l" by simp
    then show ?thesis by simp
  next
    case (Cons e3 E3)
    with no show ?thesis by simp
  qed
  from Cons.prems(1) have "last (e2 # E2) = Word l" by simp
  from Cons.IH [OF this Cons.prems(2) no2]
  have "tok_replace cj [Word X, Sep a, Word Y] rep ((e2 # E2) @ Z) =
         (e2 # E2) @ tok_replace cj [Word X, Sep a, Word Y] rep Z" .
  with tok_replace_no_match [OF nm, of rep] show ?case by (simp only: append_Cons)
qed

lemma tok_replace_tok_expand:
  assumes P: "tokens k = [Word X, Sep a, Word Y]"
    and H1: "\<forall>(c1, k1, e1) \<in> set R. harmless cj (tokens k) (tokens e1)"
    and H2: "\<forall>(c1, k1, e1) \<in> set R. apart (tokens k) (tokens k1)"
  shows "normal ts \<Longrightarrow>
    tok_replace cj (tokens k) (tokens e) (tok_expand R ts) = tok_expand (R @ [(cj, k, e)]) ts"
proof (induction ts rule: length_induct)
  case (1 ts)
  let ?P = "[Word X, Sep a, Word Y]" and ?E = "tokens e"
  let ?R' = "R @ [(cj, k, e)]"
  let ?m = "\<lambda>ts (ci :: bool, key, full :: string). tok_match ci (tokens key) ts"
  have shape: "\<exists>X1 a1 Y1. tokens k1 = [Word X1, Sep a1, Word Y1] \<and> toLowerCase Y \<noteq> toLowerCase X1"
    if "(c1, k1, e1) \<in> set R" for c1 k1 e1
  proof -
    from H2 that have "apart ?P (tokens k1)" unfolding P by fastforce
    then show ?thesis by (elim apartE) auto
  qed
  then have shapes: "\<forall>(c1, k1, e1) \<in> set R. \<exists>X1 a1 Y1. tokens k1 = [Word X1, Sep a1, Word Y1]"
    by fastforce
  have shapes': "\<forall>(c1, k1, e1) \<in> set ?R'. \<exists>X1 a1 Y1. tokens k1 = [Word X1, Sep a1, Word Y1]"
    using shapes P by auto
  have IH: "tok_replace cj ?P ?E (tok_expand R us) = tok_expand ?R' us"
    if "length us < length ts" "normal us" for us
    using "1.IH" that unfolding P by blast
  have no_start: "find (?m (Word y # us)) R = None" if "token_matches cj (Word Y) (Word y)" for y us
  proof (rule find_None_set)
    fix x assume x: "x \<in> set R"
    obtain c1 k1 e1 where xe: "x = (c1, k1, e1)" by (cases x)
    from shape x xe obtain X1 a1 Y1 where s: "tokens k1 = [Word X1, Sep a1, Word Y1]"
      and d: "toLowerCase Y \<noteq> toLowerCase X1" by blast
    from that have "toLowerCase y = toLowerCase Y" by (rule token_matches_lower)
    with d have "\<not> token_matches c1 (Word X1) (Word y)" using token_matches_lower by metis
    then show "\<not> (case x of (ci, key, full) \<Rightarrow> tok_match ci (tokens key) (Word y # us))"
      by (simp add: xe s)
  qed
  show ?case
  proof (cases ts)
    case Nil then show ?thesis by simp
  next
    case (Cons t ts')
    show ?thesis
    proof (cases "find (?m (t # ts')) R")
      case (Some x)
      obtain c1 k1 e1 where xe: "x = (c1, k1, e1)" by (cases x)
      from find_Some_set [OF Some] xe have xin: "(c1, k1, e1) \<in> set R"
        and tm: "tok_match c1 (tokens k1) (t # ts')" by auto
      from shape [OF xin] obtain X1 a1 Y1 where s: "tokens k1 = [Word X1, Sep a1, Word Y1]" by blast
      from tm obtain x1 y1 rest where ts: "t # ts' = Word x1 # Sep a1 # Word y1 # rest"
        unfolding s tok_match3 by blast
      then have t: "t = Word x1" and ts': "ts' = Sep a1 # Word y1 # rest" by simp_all
      have d: "drop (length (tokens k1) - 1) ts' = rest" unfolding s ts' by simp
      have 1: "tok_expand R ts = tokens e1 @ tok_expand R rest"
        unfolding Cons using tok_expand_Some [of t ts' R c1 k1 e1] Some xe d by simp
      have "find (?m (t # ts')) ?R' = Some (c1, k1, e1)" using Some xe by (simp add: find_snoc)
      then have 2: "tok_expand ?R' ts = tokens e1 @ tok_expand ?R' rest"
        unfolding Cons using tok_expand_Some [of t ts' ?R' c1 k1 e1] d by simp
      from "1.prems" have "normal (Word y1 # rest)" unfolding Cons ts' t
        using normal_tl by blast
      then have nr: "normal rest" by (rule normal_tl)
      from H1 xin have "harmless cj ?P (tokens e1)" unfolding P by fastforce
      then obtain h r l where e1: "tokens e1 = Word h # r" and l: "last (Word h # r) = Word l"
        and c: "\<not> token_matches cj (Word X) (Word l)" "\<not> tok_occurs cj ?P (Word h # r)"
        by (elim harmlessE) auto
      have "tok_replace cj ?P ?E (tokens e1 @ tok_expand R rest) =
          tokens e1 @ tok_replace cj ?P ?E (tok_expand R rest)"
        unfolding e1 using l c by (rule skip_replacement)
      moreover have "tok_replace cj ?P ?E (tok_expand R rest) = tok_expand ?R' rest"
        using nr by (intro IH) (simp add: Cons ts')
      ultimately show ?thesis unfolding P 1 2 by simp
    next
      case None
      then have 1: "tok_expand R ts = t # tok_expand R ts'" unfolding Cons by (rule tok_expand_None)
      from "1.prems" have nts': "normal ts'" unfolding Cons by (rule normal_tl)
      show ?thesis
      proof (cases "tok_match cj ?P (t # ts')")
        case True
        then obtain x1 y1 rest where ts: "t # ts' = Word x1 # Sep a # Word y1 # rest"
          and m: "token_matches cj (Word X) (Word x1)" "token_matches cj (Word Y) (Word y1)"
          unfolding tok_match3 by blast
        then have t: "t = Word x1" and ts': "ts' = Sep a # Word y1 # rest" by simp_all
        have "find (?m (t # ts')) ?R' = Some (cj, k, e)" using None True P by (simp add: find_snoc)
        from tok_expand_Some [OF this]
        have 2: "tok_expand ?R' ts = ?E @ tok_expand ?R' rest" unfolding Cons P ts' by simp
        have "tok_expand R ts' = Sep a # tok_expand R (Word y1 # rest)"
          unfolding ts' using shapes by (rule tok_expand_Sep)
        also have "tok_expand R (Word y1 # rest) = Word y1 # tok_expand R rest"
          using no_start [OF m(2)] by (rule tok_expand_None)
        finally have 3: "tok_expand R ts = Word x1 # Sep a # Word y1 # tok_expand R rest"
          unfolding 1 t by simp
        have "tok_match cj ?P (Word x1 # Sep a # Word y1 # tok_expand R rest)"
          unfolding tok_match3 using m by blast
        from tok_replace_match [OF this, of ?E]
        have 4: "tok_replace cj ?P ?E (tok_expand R ts) = ?E @ tok_replace cj ?P ?E (tok_expand R rest)"
          unfolding 3 by simp
        from nts' have "normal rest" unfolding ts' using normal_tl by blast
        then have "tok_replace cj ?P ?E (tok_expand R rest) = tok_expand ?R' rest"
          by (intro IH) (simp add: Cons ts')
        with 2 4 show ?thesis unfolding P by simp
      next
        case False
        have "find (?m (t # ts')) ?R' = None" using None False P by (simp add: find_snoc)
        then have 2: "tok_expand ?R' ts = t # tok_expand ?R' ts'" unfolding Cons by (rule tok_expand_None)
        have nm: "\<not> tok_match cj ?P (t # tok_expand R ts')"
        proof
          assume "tok_match cj ?P (t # tok_expand R ts')"
          then obtain x1 y1 W where tw: "t # tok_expand R ts' = Word x1 # Sep a # Word y1 # W"
            and m: "token_matches cj (Word X) (Word x1)" "token_matches cj (Word Y) (Word y1)"
            unfolding tok_match3 by blast
          then have t: "t = Word x1" and w: "tok_expand R ts' = Sep a # Word y1 # W" by simp_all
          from "1.prems" have "ts' = [] \<or> (\<exists>c us. ts' = Sep c # us)"
            unfolding Cons t by (rule normal_after_Word)
          with w obtain c us where ts': "ts' = Sep c # us" by auto
          from w have w2: "c = a" "tok_expand R us = Word y1 # W"
            unfolding ts' tok_expand_Sep [OF shapes] by simp_all
          from w2(2) obtain u us' where us: "us = u # us'" by (cases us) auto
          show False
          proof (cases "find (?m (u # us')) R")
            case (Some x)
            obtain c1 k1 e1 where xe: "x = (c1, k1, e1)" by (cases x)
            from find_Some_set [OF Some] xe have xin: "(c1, k1, e1) \<in> set R" by auto
            from H1 xin have "harmless cj ?P (tokens e1)" unfolding P by fastforce
            then obtain h r where e1: "tokens e1 = Word h # r"
              and c: "\<not> token_matches cj (Word Y) (Word h)"
              by (elim harmlessE) auto
            from tok_expand_Some [of u us' R c1 k1 e1] Some xe
            have "tok_expand R us = Word h # r @ tok_expand R (drop (length (tokens k1) - 1) us')"
              unfolding us e1 by simp
            with w2(2) have "y1 = h" by simp
            with c m(2) show False by simp
          next
            case None
            from tok_expand_None [OF None] w2(2) have "u = Word y1" unfolding us by simp
            then have "t # ts' = Word x1 # Sep a # Word y1 # us'" unfolding t ts' us w2(1) by simp
            with m have "tok_match cj ?P (t # ts')" unfolding tok_match3 by blast
            with False show False by contradiction
          qed
        qed
        have "tok_replace cj ?P ?E (tok_expand R ts) = t # tok_replace cj ?P ?E (tok_expand R ts')"
          unfolding 1 using nm by (rule tok_replace_no_match)
        moreover have "tok_replace cj ?P ?E (tok_expand R ts') = tok_expand ?R' ts'"
          using nts' by (intro IH) (simp add: Cons)
        ultimately show ?thesis unfolding P 2 by simp
      qed
    qed
  qed
qed

lemma tok_replace_each_snoc:
  "tok_replace_each (reps @ [(c, k, e)]) ts = tok_replace c (tokens k) (tokens e) (tok_replace_each reps ts)"
  by (simp add: tok_replace_each_def)

lemma tok_replace_each_expand:
  assumes A1: "\<forall>(ci, k, e) \<in> set all. \<forall>(cj, k', e') \<in> set all. harmless ci (tokens k) (tokens e')"
    and A2: "\<forall>(ci, k, e) \<in> set all. \<forall>(cj, k', e') \<in> set all. apart (tokens k) (tokens k')"
    and n: "normal ts"
  shows "set reps \<subseteq> set all \<Longrightarrow> tok_replace_each reps ts = tok_expand reps ts"
proof (induction reps rule: rev_induct)
  case Nil show ?case by (simp add: tok_replace_each_def tok_expand_no_reps)
next
  case (snoc x reps)
  obtain cj k e where x: "x = (cj, k, e)" by (cases x)
  from snoc.prems x have xin: "(cj, k, e) \<in> set all" and sub: "set reps \<subseteq> set all" by auto
  from A1 xin have "harmless cj (tokens k) (tokens e)" by fastforce
  then obtain X a Y where P: "tokens k = [Word X, Sep a, Word Y]" by (elim harmlessE) auto
  have H1: "\<forall>(c1, k1, e1) \<in> set reps. harmless cj (tokens k) (tokens e1)"
    using A1 xin sub by fastforce
  have H2: "\<forall>(c1, k1, e1) \<in> set reps. apart (tokens k) (tokens k1)"
    using A2 xin sub by fastforce
  show ?case
    unfolding x tok_replace_each_snoc snoc.IH [OF sub]
    using P H1 H2 n by (rule tok_replace_tok_expand)
qed

lemma normal_tok_replace_each:
  assumes A1: "\<forall>(ci, k, e) \<in> set all. \<forall>(cj, k', e') \<in> set all. harmless ci (tokens k) (tokens e')"
    and n: "normal ts"
  shows "set reps \<subseteq> set all \<Longrightarrow> normal (tok_replace_each reps ts)"
proof (induction reps rule: rev_induct)
  case Nil show ?case using n by (simp add: tok_replace_each_def)
next
  case (snoc x reps)
  obtain cj k e where x: "x = (cj, k, e)" by (cases x)
  from snoc.prems x have xin: "(cj, k, e) \<in> set all" and sub: "set reps \<subseteq> set all" by auto
  from A1 xin have "harmless cj (tokens k) (tokens e)" by fastforce
  then obtain X a Y h r l where P: "tokens k = [Word X, Sep a, Word Y]" and E: "tokens e = Word h # r"
    and l: "last (Word h # r) = Word l" by (elim harmlessE) auto
  have "normal (Word h # r)" using normal_tokens [of e] E by simp
  then show ?case unfolding x tok_replace_each_snoc P E using l snoc.IH [OF sub]
    by (rule normal_tok_replace)
qed

lemma replace_each_tokens:
  assumes A1: "\<forall>(ci, k, e) \<in> set all. \<forall>(cj, k', e') \<in> set all. harmless ci (tokens k) (tokens e')"
  shows "set reps \<subseteq> set all \<Longrightarrow> replace_each reps s = untokenize (tok_replace_each reps (tokens s))"
proof (induction reps rule: rev_induct)
  case Nil show ?case by (simp add: replace_each_def tok_replace_each_def untokenize_tokens)
next
  case (snoc x reps)
  obtain cj k e where x: "x = (cj, k, e)" by (cases x)
  from snoc.prems have sub: "set reps \<subseteq> set all" by simp
  have "normal (tok_replace_each reps (tokens s))"
    using A1 normal_tokens sub by (rule normal_tok_replace_each)
  then have "tokens (untokenize (tok_replace_each reps (tokens s))) = tok_replace_each reps (tokens s)"
    by (rule tokens_untokenize)
  then show ?case
    unfolding x replace_each_snoc tok_replace_each_snoc snoc.IH [OF sub] replace_words_def by simp
qed

lemma expansions_harmless:
  "\<forall>(ci, k, e) \<in> set expansions. \<forall>(cj, k', e') \<in> set expansions. harmless ci (tokens k) (tokens e')"
  by code_simp

lemma expansions_apart:
  "\<forall>(ci, k, e) \<in> set expansions. \<forall>(cj, k', e') \<in> set expansions. apart (tokens k) (tokens k')"
  by code_simp

lemma replace_each_expansions: "replace_each expansions s = expand_from expansions None s"
proof -
  have "replace_each expansions s = untokenize (tok_replace_each expansions (tokens s))"
    using expansions_harmless by (rule replace_each_tokens) simp
  also have "tok_replace_each expansions (tokens s) = tok_expand expansions (tokens s)"
    using expansions_harmless expansions_apart normal_tokens by (rule tok_replace_each_expand) simp
  also have "untokenize (tok_expand expansions (tokens s)) = expand_from expansions None s"
    using dictionary_keys_word_ended(4) by (intro expand_from_tokens [symmetric]) (auto simp: list_all_iff)
  finally show ?thesis .
qed

lemma addHumanTouches_professional: "addHumanTouches s ''professional'' = replace_each expansions s"
  by (simp add: addHumanTouches_def)

lemma listed_contractions_expansions: "listed_contractions = expansions"
  by (simp add: listed_contractions_def expansions_def)

lemma humanizeText_before:
  "humanizeText rnd text tone = addHumanTouches (before_human_touches rnd text tone) tone"
  by (simp add: humanizeText_def before_human_touches_def Let_def split_beta)

lemma replace_each_absent:
  "\<forall>(ci, k, e) \<in> set reps. \<not> contains_word ci k s \<Longrightarrow> replace_each reps s = s"
  unfolding replace_each_def by (induction reps) (auto simp: replace_words_absent)

subsection \<open>The professional tone expands the listed contractions\<close>

lemma humanizeText_professional:
  "\<exists>result. humanizeText rnd text ''professional'' = replace_each expansions result"
  by (auto simp add: humanizeText_def addHumanTouches_def Let_def split_beta)

lemma no_listed_contraction_left:
  "\<forall>(ci, k, e) \<in> set expansions. \<not> contains_word ci k (humanizeText rnd text ''professional'')"
proof -
  obtain result where r: "humanizeText rnd text ''professional'' = replace_each expansions result"
    using humanizeText_professional by blast
  show ?thesis unfolding r using expansions_harmless by (rule replace_each_clears) simp
qed

text \<open>
  Claim C7, as amended.  With the tone \<^verbatim>\<open>professional\<close> the last stage of the rewriter is one
  pass over the text that the first five stages hand over: each whole-word occurrence of
  \<^verbatim>\<open>don't\<close>, \<^verbatim>\<open>can't\<close>, \<^verbatim>\<open>won't\<close>, \<^verbatim>\<open>shouldn't\<close>, \<^verbatim>\<open>wouldn't\<close>, \<^verbatim>\<open>couldn't\<close>, \<^verbatim>\<open>it's\<close> or
  \<^verbatim>\<open>that's\<close> in any letter case, and of \<^verbatim>\<open>I'm\<close> in this letter case, is replaced by its full
  form (\<^verbatim>\<open>do not\<close>, \<^verbatim>\<open>cannot\<close>, \<^verbatim>\<open>will not\<close>, \<^verbatim>\<open>should not\<close>, \<^verbatim>\<open>would not\<close>, \<^verbatim>\<open>could not\<close>,
  \<^verbatim>\<open>it is\<close>, \<^verbatim>\<open>that is\<close>, \<^verbatim>\<open>I am\<close>) and every other character is copied.  This holds of
  the stage on every text and of the rewriter on every input and every outcome of the random
  stages.  A text in which none of the nine stands as a whole word, whatever other
  contractions it holds, leaves the stage as it came.  The output of the rewriter has no
  whole-word occurrence of any of the nine: no replacement brings one of them back.
\<close>

theorem professional_expands_listed:
  "humanizeText rnd text ''professional'' =
     expand_listed (before_human_touches rnd text ''professional'') \<and>
   addHumanTouches s ''professional'' = expand_listed s \<and>
   ((\<forall>(ci, key, full) \<in> set listed_contractions. \<not> contains_word ci key s) \<longrightarrow>
      addHumanTouches s ''professional'' = s) \<and>
   \<not> contains_word True ''don't'' (humanizeText rnd text ''professional'') \<and>
   \<not> contains_word True ''can't'' (humanizeText rnd text ''professional'') \<and>
   \<not> contains_word True ''won't'' (humanizeText rnd text ''professional'') \<and>
   \<not> contains_word True ''shouldn't'' (humanizeText rnd text ''professional'') \<and>
   \<not> contains_word True ''wouldn't'' (humanizeText rnd text ''professional'') \<and>
   \<not> contains_word True ''couldn't'' (humanizeText rnd text ''professional'') \<and>
   \<not> contains_word True ''it's'' (humanizeText rnd text ''professional'') \<and>
   \<not> contains_word True ''that's'' (humanizeText rnd text ''professional'') \<and>
   \<not> contains_word False ''I'm'' (humanizeText rnd text ''professional'')"
proof -
  have stage: "addHumanTouches u ''professional'' = expand_listed u" for u
    unfolding expand_listed_def listed_contractions_expansions addHumanTouches_professional
    by (rule replace_each_expansions)
  have 1: "humanizeText rnd text ''professional'' =
      expand_listed (before_human_touches rnd text ''professional'')"
    unfolding humanizeText_before by (rule stage)
  have 2: "addHumanTouches s ''professional'' = expand_listed s" by (rule stage)
  have 3: "(\<forall>(ci, key, full) \<in> set listed_contractions. \<not> contains_word ci key s) \<longrightarrow>
      addHumanTouches s ''professional'' = s"
    unfolding listed_contractions_expansions addHumanTouches_professional
    using replace_each_absent by blast
  have 4: "\<not> contains_word True ''don't'' (humanizeText rnd text ''professional'') \<and>
   \<not> contains_word True ''can't'' (humanizeText rnd text ''professional'') \<and>
   \<not> contains_word True ''won't'' (humanizeText rnd text ''professional'') \<and>
   \<not> contains_word True ''shouldn't'' (humanizeText rnd text ''professional'') \<and>
   \<not> contains_word True ''wouldn't'' (humanizeText rnd text ''professional'') \<and>
   \<not> contains_word True ''couldn't'' (humanizeText rnd text ''professional'') \<and>
   \<not> contains_word True ''it's'' (humanizeText rnd text ''professional'') \<and>
   \<not> contains_word True ''that's'' (humanizeText rnd text ''professional'') \<and>
   \<not> contains_word False ''I'm'' (humanizeText rnd text ''professional'')"
    using no_listed_contraction_left [of rnd "text"] by (simp add: expansions_def)
  show ?thesis by (rule conjI [OF 1 conjI [OF 2 conjI [OF 3 4]]])
qed

theorem professional_expands_listed_witness:
  "humanizeText (\<lambda>n. 0) ''I don't think it's good. I'm sure we can't.'' ''professional'' =
     ''I do not believe it is beneficial. I am sure we cannot.'' \<and>
   expand_listed (before_human_touches (\<lambda>n. 0) ''I don't think it's good. I'm sure we can't.'' ''professional'') =
     ''I do not believe it is beneficial. I am sure we cannot.'' \<and>
   before_human_touches (\<lambda>n. 0) ''I don't think it's good. I'm sure we can't.'' ''professional'' =
     ''I don't believe it's beneficial. I'm sure we can't.'' \<and>
   addHumanTouches ''You're sure it isn't so.'' ''professional'' = ''You're sure it isn't so.'' \<and>
   expand_listed ''Don't, can't, WON'T; shouldn't wouldn't couldn't. It's that's I'm i'm'' =
     ''do not, cannot, will not; should not would not could not. it is that is I am i'm'' \<and>
   \<not> contains_word True ''don't'' (humanizeText (\<lambda>n. 0) ''I don't think it's good. I'm sure we can't.'' ''professional'')"
proof -
  let ?t = "''I don't think it's good. I'm sure we can't.''"
  let ?s = "''You're sure it isn't so.''"
  have e: "humanizeText (\<lambda>n. 0) ?t ''professional'' =
     ''I do not believe it is beneficial. I am sure we cannot.''"
    by code_simp
  have b: "before_human_touches (\<lambda>n. 0) ?t ''professional'' =
     ''I don't believe it's beneficial. I'm sure we can't.''"
    by code_simp
  have h: "\<forall>(ci, key, full) \<in> set listed_contractions. \<not> contains_word ci key ?s"
    by code_simp
  have x: "expand_listed ''Don't, can't, WON'T; shouldn't wouldn't couldn't. It's that's I'm i'm'' =
     ''do not, cannot, will not; should not would not could not. it is that is I am i'm''"
    by code_simp
  note t = professional_expands_listed [of "\<lambda>n. 0" ?t ?s]
  from t have 1: "humanizeText (\<lambda>n. 0) ?t ''professional'' =
     expand_listed (before_human_touches (\<lambda>n. 0) ?t ''professional'')" by (rule conjunct1)
  from t h have 2: "addHumanTouches ?s ''professional'' = ?s" by blast
  from t have 3: "\<not> contains_word True ''don't'' (humanizeText (\<lambda>n. 0) ?t ''professional'')"
    by blast
  from 1 e have 4: "expand_listed (before_human_touches (\<lambda>n. 0) ?t ''professional'') =
     ''I do not believe it is beneficial. I am sure we cannot.''" by simp
  show ?thesis by (rule conjI [OF e conjI [OF 4 conjI [OF b conjI [OF 2 conjI [OF x 3]]]]])
qed

text \<open>
  The claim as stated speaks of every contraction of the input.  The list of the professional
  tone has nine entries: \<^verbatim>\<open>you're\<close> is not among them and stays, and \<^verbatim>\<open>I'm\<close> is sought in
  this letter case only, so it stays as \<^verbatim>\<open>i'm\<close> when an introductory phrase was put before
  it and its first letter lowered.
\<close>

theorem professional_expands_listed_counterexample:
  "contains_word True ''you're'' ''We know you're late.'' \<and>
   humanizeText (\<lambda>n. 0) ''We know you're late.'' ''professional'' = ''We understand you're late.'' \<and>
   contains_word True ''you're'' (humanizeText (\<lambda>n. 0) ''We know you're late.'' ''professional'') \<and>
   contains_word True ''I'm'' ''I'm sure we can't stay.'' \<and>
   humanizeText (\<lambda>n. if n = 0 then 9 / 10 else 0) ''I'm sure we can't stay.'' ''professional'' =
     ''Interestingly, i'm sure we cannot stay.'' \<and>
   contains_word True ''I'm'' (humanizeText (\<lambda>n. if n = 0 then 9 / 10 else 0) ''I'm sure we can't stay.'' ''professional'')"
  by code_simp

subsection \<open>Substrings and whole words\<close>

lemma replace_ci_first:
  assumes "key \<noteq> []"
  shows "ci_occurs key s \<Longrightarrow>
    \<exists>u m v. s = u @ m @ v \<and> toLowerCase m = toLowerCase key \<and>
            replace_ci key rep s = u @ rep @ replace_ci key rep v"
proof (induction s)
  case Nil then show ?case by simp
next
  case (Cons c cs)
  show ?case
  proof (cases "ci_prefix key (c # cs)")
    case True
    let ?m = "take (length key) (c # cs)" and ?v = "drop (length key) (c # cs)"
    from assms have "?v = drop (length key - 1) cs" by (cases key) simp_all
    with True have "replace_ci key rep (c # cs) = [] @ rep @ replace_ci key rep ?v" by simp
    moreover have "c # cs = [] @ ?m @ ?v" by simp
    moreover from True have "toLowerCase ?m = toLowerCase key" by (simp add: ci_prefix_def)
    ultimately show ?thesis by blast
  next
    case False
    with Cons.prems have "ci_occurs key cs" by simp
    from Cons.IH [OF this] obtain u m v where "cs = u @ m @ v" "toLowerCase m = toLowerCase key"
      "replace_ci key rep cs = u @ rep @ replace_ci key rep v" by blast
    with False have "c # cs = (c # u) @ m @ v \<and> toLowerCase m = toLowerCase key \<and>
        replace_ci key rep (c # cs) = (c # u) @ rep @ replace_ci key rep v" by simp
    then show ?thesis by blast
  qed
qed

lemma dictionary_absent:
  "\<forall>(k, v) \<in> set dict. \<not> contains_word True k s \<Longrightarrow>
     foldl (\<lambda>newSentence (k, v). replace_words True k v newSentence) s dict = s"
  by (induction dict) (auto simp: replace_words_absent)

lemma casual_keys_alone:
  "keys_alone [] (map (\<lambda>(k, v). (k, toLowerCase k, v)) casualReplacements)"
  by code_simp


lemma prefix_of_take: "prefix_of p s \<longleftrightarrow> length p \<le> length s \<and> take (length p) s = p"
  by (induction p s rule: prefix_of.induct) auto

lemma ci_prefix_lowered: "ci_prefix key s \<longleftrightarrow> prefix_of (toLowerCase key) (toLowerCase s)"
  by (auto simp: ci_prefix_def prefix_of_take toLowerCase_def take_map)

lemma ci_occurs_lowered: "ci_occurs key s \<longleftrightarrow> occurs_in (toLowerCase key) (toLowerCase s)"
proof (induction s)
  case Nil then show ?case by (simp add: toLowerCase_def)
next
  case (Cons c cs)
  have "toLowerCase (c # cs) = to_lower c # toLowerCase cs" by (simp add: toLowerCase_def)
  with Cons show ?case using ci_prefix_lowered [of key "c # cs"] by simp
qed

lemma replace_ci_absent: "\<not> ci_occurs key s \<Longrightarrow> replace_ci key rep s = s"
  by (induction s) simp_all

lemma casual_pass_absent:
  "\<forall>(k, v) \<in> set dict. \<not> ci_occurs k s \<Longrightarrow>
     foldl (\<lambda>newSentence (formal, casual). replace_ci formal casual newSentence) s dict = s"
  by (induction dict) (auto simp: replace_ci_absent)

lemma replace_ci_inside:
  assumes k: "2 \<le> length k" and m: "toLowerCase m = toLowerCase k"
    and n: "\<not> prefix_of (toLowerCase k) (c # toLowerCase k @ [d])"
    and c: "to_lower c = c" "to_lower d = d"
  shows "replace_ci k v (c # m @ [d]) = c # v @ [d]"
proof -
  from m have len: "length m = length k" by (auto simp: toLowerCase_def dest: map_eq_imp_length_eq)
  have "toLowerCase (c # m @ [d]) = c # toLowerCase k @ [d]"
    using m c by (simp add: toLowerCase_def)
  then have 1: "\<not> ci_prefix k (c # m @ [d])"
    using n by (simp only: ci_prefix_lowered) simp
  from k len obtain a ms where ms: "m = a # ms" by (cases m) auto
  have 2: "ci_prefix k (m @ [d])" using m len by (simp add: ci_prefix_def)
  have 3: "drop (length k - 1) (ms @ [d]) = [d]" using len ms by simp
  have 4: "\<not> ci_prefix k [d]" using k by (simp add: ci_prefix_def)
  have "replace_ci k v (c # m @ [d]) = c # replace_ci k v (m @ [d])" using 1 by simp
  also have "replace_ci k v (m @ [d]) = v @ replace_ci k v [d]"
    using 2 3 unfolding ms by simp
  also have "replace_ci k v [d] = [d]" using 4 by simp
  finally show ?thesis by simp
qed

lemma keys_alone_sound:
  assumes "keys_alone (map (\<lambda>(k, v). toLowerCase k) pre) (map (\<lambda>(k, v). (k, toLowerCase k, v)) rest)"
    and "(k, v) \<in> set rest" and "toLowerCase m = toLowerCase k"
  shows "foldl (\<lambda>newSentence (formal, casual). replace_ci formal casual newSentence)
           (''x'' @ m @ ''x'') (pre @ rest) = ''x'' @ v @ ''x''"
  using assms(1,2)
proof (induction rest arbitrary: pre)
  case Nil then show ?case by simp
next
  case (Cons e rest)
  obtain k0 v0 where e: "e = (k0, v0)" by (cases e)
  let ?step = "\<lambda>newSentence (formal, casual). replace_ci formal casual newSentence"
  let ?P = "map (\<lambda>(k, v). toLowerCase k) pre" and ?R = "map (\<lambda>(k, v). (k, toLowerCase k, v)) rest"
  from Cons.prems(1) have
    a: "list_all (\<lambda>p. \<not> occurs_in p (''x'' @ toLowerCase k0 @ ''x'')) ?P"
    and b: "\<not> prefix_of (toLowerCase k0) (''x'' @ toLowerCase k0 @ ''x'')" "2 \<le> length (toLowerCase k0)"
    and c: "list_all (\<lambda>(k', lk', v'). \<not> occurs_in lk' (toLowerCase (''x'' @ v0 @ ''x''))) ?R"
    and d: "keys_alone (?P @ [toLowerCase k0]) ?R"
    unfolding e by simp_all
  show ?case
  proof (cases "(k, v) = (k0, v0)")
    case True
    then have kv: "k = k0" "v = v0" by simp_all
    have x: "to_lower CHR ''x'' = CHR ''x''" by code_simp
    have low: "toLowerCase (''x'' @ m @ ''x'') = ''x'' @ toLowerCase k0 @ ''x''"
      using assms(3) kv x by (simp add: toLowerCase_def)
    have "\<forall>(k', v') \<in> set pre. \<not> ci_occurs k' (''x'' @ m @ ''x'')"
      using a unfolding ci_occurs_lowered low by (auto simp: list_all_iff)
    then have 1: "foldl ?step (''x'' @ m @ ''x'') pre = ''x'' @ m @ ''x''" by (rule casual_pass_absent)
    have 2: "replace_ci k0 v0 (''x'' @ m @ ''x'') = ''x'' @ v0 @ ''x''"
      using replace_ci_inside [of k0 m "CHR ''x''" "CHR ''x''" v0] b assms(3) kv x
      by (simp add: toLowerCase_def)
    have "\<forall>(k', v') \<in> set rest. \<not> ci_occurs k' (''x'' @ v0 @ ''x'')"
      using c unfolding ci_occurs_lowered by (auto simp: list_all_iff)
    then have 3: "foldl ?step (''x'' @ v0 @ ''x'') rest = ''x'' @ v0 @ ''x''" by (rule casual_pass_absent)
    show ?thesis unfolding e kv by (simp only: foldl_append foldl_Cons 1 2 3 prod.case)
  next
    case False
    with Cons.prems(2) e have in_rest: "(k, v) \<in> set rest" by auto
    from d have "keys_alone (map (\<lambda>(k, v). toLowerCase k) (pre @ [e])) ?R" unfolding e by simp
    from Cons.IH [OF this in_rest] show ?thesis by simp
  qed
qed

lemma casual_each_key:
  assumes "(k, v) \<in> set casualReplacements" and "toLowerCase m = toLowerCase k"
  shows "applyCasualTone [''x'' @ m @ ''x''] = [''x'' @ v @ ''x'']"
  using keys_alone_sound [of "[]" casualReplacements k v m] casual_keys_alone assms
  by (simp add: applyCasualTone_def)

lemma story_each_key:
  "\<forall>(k, v) \<in> set storyReplacements.
      applyStoryTone [''x'' @ k @ ''x''] = [''x'' @ k @ ''x''] \<and>
      applyStoryTone [''('' @ k @ '')''] = [''('' @ v @ '')'']"
  by code_simp

lemma professional_each_key:
  "\<forall>(k, v) \<in> set professionalReplacements.
      applyProfessionalTone [''x'' @ k @ ''x''] = [''x'' @ k @ ''x''] \<and>
      applyProfessionalTone [''('' @ k @ '')''] = [''('' @ v @ '')'']"
  by code_simp

text \<open>
  Claim C10.  The casual dictionary is applied without word boundaries: an occurrence of a
  key, in any letter case and with any characters around it, is replaced (the leftmost one
  at its place, the search going on behind it).  So every key of the casual dictionary, in
  any letter case, is replaced by its casual form inside the word that the letter \<^verbatim>\<open>x\<close>
  before and after it make of it, and \<^verbatim>\<open>Regarding\<close> inside \<^verbatim>\<open>DisRegarding\<close> becomes \<^verbatim>\<open>about\<close>.
  The story and professional dictionaries match whole words only: a sentence in which no key
  stands as a whole word is left as it is; every key of theirs stays between two letters
  \<^verbatim>\<open>x\<close> and is replaced between two brackets; \<^verbatim>\<open>learning\<close> and \<^verbatim>\<open>useful\<close> stay while the
  words \<^verbatim>\<open>learn\<close> and \<^verbatim>\<open>use\<close> are replaced.
\<close>

theorem casual_substrings_story_professional_words:
  "(\<forall>key rep s. key \<noteq> [] \<and> ci_occurs key s \<longrightarrow>
      (\<exists>u m v. s = u @ m @ v \<and> toLowerCase m = toLowerCase key \<and>
               replace_ci key rep s = u @ rep @ replace_ci key rep v)) \<and>
   applyCasualTone [''DisRegarding the rules''] = [''Disabout the rules''] \<and>
   (\<forall>s. (\<forall>(k, v) \<in> set storyReplacements. \<not> contains_word True k s) \<longrightarrow> applyStoryTone [s] = [s]) \<and>
   (\<forall>s. (\<forall>(k, v) \<in> set professionalReplacements. \<not> contains_word True k s) \<longrightarrow>
        applyProfessionalTone [s] = [s]) \<and>
   applyStoryTone [''learning to learn''] = [''learning to come to realize''] \<and>
   applyProfessionalTone [''useful use of Use''] = [''useful utilize of utilize''] \<and>
   (\<forall>(k, v) \<in> set casualReplacements. \<forall>m. toLowerCase m = toLowerCase k \<longrightarrow>
        applyCasualTone [''x'' @ m @ ''x''] = [''x'' @ v @ ''x'']) \<and>
   (\<forall>(k, v) \<in> set storyReplacements.
        applyStoryTone [''x'' @ k @ ''x''] = [''x'' @ k @ ''x''] \<and>
        applyStoryTone [''('' @ k @ '')''] = [''('' @ v @ '')'']) \<and>
   (\<forall>(k, v) \<in> set professionalReplacements.
        applyProfessionalTone [''x'' @ k @ ''x''] = [''x'' @ k @ ''x''] \<and>
        applyProfessionalTone [''('' @ k @ '')''] = [''('' @ v @ '')''])"
proof -
  have 1: "applyCasualTone [''DisRegarding the rules''] = [''Disabout the rules'']" by code_simp
  have 2: "applyStoryTone [''learning to learn''] = [''learning to come to realize'']" by code_simp
  have 3: "applyProfessionalTone [''useful use of Use''] = [''useful utilize of utilize'']" by code_simp
  have old: "(\<forall>key rep s. key \<noteq> [] \<and> ci_occurs key s \<longrightarrow>
      (\<exists>u m v. s = u @ m @ v \<and> toLowerCase m = toLowerCase key \<and>
               replace_ci key rep s = u @ rep @ replace_ci key rep v)) \<and>
   applyCasualTone [''DisRegarding the rules''] = [''Disabout the rules''] \<and>
   (\<forall>s. (\<forall>(k, v) \<in> set storyReplacements. \<not> contains_word True k s) \<longrightarrow> applyStoryTone [s] = [s]) \<and>
   (\<forall>s. (\<forall>(k, v) \<in> set professionalReplacements. \<not> contains_word True k s) \<longrightarrow>
        applyProfessionalTone [s] = [s]) \<and>
   applyStoryTone [''learning to learn''] = [''learning to come to realize''] \<and>
   applyProfessionalTone [''useful use of Use''] = [''useful utilize of utilize'']"
    using replace_ci_first 1 2 3
    by (simp add: applyStoryTone_def applyProfessionalTone_def dictionary_absent)
  have casual: "\<forall>(k, v) \<in> set casualReplacements. \<forall>m. toLowerCase m = toLowerCase k \<longrightarrow>
        applyCasualTone [''x'' @ m @ ''x''] = [''x'' @ v @ ''x'']"
    using casual_each_key by blast
  show ?thesis
    using old casual story_each_key professional_each_key
    by (elim conjE, intro conjI) assumption+
qed

theorem casual_substrings_story_professional_words_witness:
  "applyStoryTone [''learning''] = [''learning''] \<and>
   applyProfessionalTone [''useful''] = [''useful''] \<and>
   (\<exists>u m v. ''disregarding'' = u @ m @ v \<and> toLowerCase m = toLowerCase ''regarding'' \<and>
       replace_ci ''regarding'' ''about'' ''disregarding'' = u @ ''about'' @ replace_ci ''regarding'' ''about'' v) \<and>
   applyCasualTone [''xREGARDINGx''] = [''xaboutx''] \<and>
   applyCasualTone [''xin Order tox''] = [''xTox''] \<and>
   applyProfessionalTone [''xa lotx''] = [''xa lotx''] \<and>
   applyProfessionalTone [''(a lot)''] = [''(significantly)'']"
proof -
  have 1: "\<forall>(k, v) \<in> set storyReplacements. \<not> contains_word True k ''learning''" by code_simp
  have 2: "\<forall>(k, v) \<in> set professionalReplacements. \<not> contains_word True k ''useful''" by code_simp
  have 3: "''regarding'' \<noteq> [] \<and> ci_occurs ''regarding'' ''disregarding''" by code_simp
  have 4: "(''regarding'', ''about'') \<in> set casualReplacements \<and>
           toLowerCase ''REGARDING'' = toLowerCase ''regarding''" by code_simp
  have 5: "(''In order to'', ''To'') \<in> set casualReplacements \<and>
           toLowerCase ''in Order to'' = toLowerCase ''In order to''" by code_simp
  have 6: "(''a lot'', ''significantly'') \<in> set professionalReplacements" by code_simp
  note t = casual_substrings_story_professional_words
  from t 1 have a: "applyStoryTone [''learning''] = [''learning'']" by blast
  from t 2 have b: "applyProfessionalTone [''useful''] = [''useful'']" by blast
  from t 3 have c: "\<exists>u m v. ''disregarding'' = u @ m @ v \<and> toLowerCase m = toLowerCase ''regarding'' \<and>
       replace_ci ''regarding'' ''about'' ''disregarding'' = u @ ''about'' @ replace_ci ''regarding'' ''about'' v"
    by blast
  from t have "\<forall>(k, v) \<in> set casualReplacements. \<forall>m. toLowerCase m = toLowerCase k \<longrightarrow>
        applyCasualTone [''x'' @ m @ ''x''] = [''x'' @ v @ ''x'']" by blast
  with 4 5 have d: "applyCasualTone [''x'' @ ''REGARDING'' @ ''x''] = [''x'' @ ''about'' @ ''x'']"
    and e: "applyCasualTone [''x'' @ ''in Order to'' @ ''x''] = [''x'' @ ''To'' @ ''x'']" by blast+
  from t have "\<forall>(k, v) \<in> set professionalReplacements.
        applyProfessionalTone [''x'' @ k @ ''x''] = [''x'' @ k @ ''x''] \<and>
        applyProfessionalTone [''('' @ k @ '')''] = [''('' @ v @ '')'']" by blast
  with 6 have f: "applyProfessionalTone [''x'' @ ''a lot'' @ ''x''] = [''x'' @ ''a lot'' @ ''x''] \<and>
        applyProfessionalTone [''('' @ ''a lot'' @ '')''] = [''('' @ ''significantly'' @ '')'']" by blast
  from a b c d e f show ?thesis by simp
qed

end
